theory Spec2Isabelle
  imports Main "HOL-Library.Sublist"
begin

section \<open>JavaScript values used by the services\<close>

text \<open>
  A JavaScript string is modelled as a \<^typ>\<open>string\<close>; one \<^typ>\<open>char\<close> stands for one code
  unit (the code units 0..255). A value that may be \<^verbatim>\<open>null\<close> or \<^verbatim>\<open>undefined\<close> is an
  \<^typ>\<open>'a option\<close>. A rejected promise or a thrown exception is the left summand of a sum.
\<close>

datatype js_error = JsError (message: "string option")

text \<open>Truthiness of a \<^verbatim>\<open>string | null | undefined\<close>: only a non-empty string is truthy.\<close>

definition truthy :: "string option \<Rightarrow> bool" where
  "truthy v = (case v of None \<Rightarrow> False | Some s \<Rightarrow> s \<noteq> [])"

text \<open>\<^verbatim>\<open>a || b\<close> on two such values, and \<^verbatim>\<open>a || ''\<close> with a string default.\<close>

definition js_or :: "string option \<Rightarrow> string option \<Rightarrow> string option" where
  "js_or a b = (if truthy a then a else b)"

definition js_or_str :: "string option \<Rightarrow> string \<Rightarrow> string" where
  "js_or_str a d = (case a of None \<Rightarrow> d | Some s \<Rightarrow> if s \<noteq> [] then s else d)"

text \<open>
  White space as \<^verbatim>\<open>String.prototype.trim\<close> and the regular expression class \<^verbatim>\<open>\s\<close> see it,
  on the code units a \<^typ>\<open>char\<close> holds: TAB, LF, VT, FF, CR, SPACE and NBSP.
\<close>

definition is_space :: "char \<Rightarrow> bool" where
  "is_space c \<longleftrightarrow>
     c \<in> {CHR 0x09, CHR ''\<newline>'', CHR 0x0B, CHR 0x0C, CHR 0x0D, CHR '' '', CHR 0xA0}"

definition trimStart :: "string \<Rightarrow> string" where
  "trimStart s = dropWhile is_space s"

definition trimEnd :: "string \<Rightarrow> string" where
  "trimEnd s = rev (dropWhile is_space (rev s))"

definition trim :: "string \<Rightarrow> string" where
  "trim s = trimEnd (trimStart s)"

text \<open>\<^verbatim>\<open>s.includes(p)\<close>: \<open>p\<close> occurs in \<open>s\<close> as a contiguous run.\<close>

fun includes_str :: "string \<Rightarrow> string \<Rightarrow> bool" where
  "includes_str [] p = (p = [])"
| "includes_str (c # cs) p = (prefix p (c # cs) \<or> includes_str cs p)"

text \<open>\<^verbatim>\<open>xs.join(sep)\<close> on an array of strings.\<close>

fun join :: "string \<Rightarrow> string list \<Rightarrow> string" where
  "join sep [] = []"
| "join sep [x] = x"
| "join sep (x # y # ys) = x @ sep @ join sep (y # ys)"

text \<open>\<^verbatim>\<open>s.split('\n')\<close>: the pieces between line feeds; the empty string gives one empty piece.\<close>

fun split_nl :: "string \<Rightarrow> string list" where
  "split_nl [] = [[]]"
| "split_nl (c # cs) =
     (if c = CHR ''\<newline>'' then [] # split_nl cs
      else (case split_nl cs of [] \<Rightarrow> [[c]] | l # ls \<Rightarrow> (c # l) # ls))"

text \<open>
  Decimal digits of a non-negative integer, as \<^verbatim>\<open>Number.prototype.toString\<close> and a template
  literal print every integer below \<open>10\<^sup>2\<^sup>1\<close>.
\<close>

definition digit_char :: "nat \<Rightarrow> char" where
  "digit_char d = ''0123456789'' ! d"

function toString_nat :: "nat \<Rightarrow> string" where
  "toString_nat n =
     (if n < 10 then [digit_char n] else toString_nat (n div 10) @ [digit_char (n mod 10)])"
  by pat_completeness auto
termination
  by (relation "measure (\<lambda>n. n)") auto

declare toString_nat.simps [simp del]

section \<open>services/storageService.ts\<close>

text \<open>
  What \<^verbatim>\<open>getGCSConfig\<close> reads: three variables of \<^verbatim>\<open>process.env\<close> and two keys of
  \<^verbatim>\<open>localStorage\<close>. Each read gives a string or nothing.
\<close>

record gcs_sources =
  GCS_BUCKET_NAME :: "string option"
  GCS_ACCESS_TOKEN :: "string option"
  GCS_CREDENTIALS :: "string option"
  gcs_bucket_override :: "string option"
  gcs_token_override :: "string option"

record StorageConfig =
  bucket :: string
  token :: string
  isConfigured :: bool
  source :: string

definition getGCSConfig :: "gcs_sources \<Rightarrow> StorageConfig" where
  "getGCSConfig e =
     (let envBucket = GCS_BUCKET_NAME e;
          envToken = js_or (GCS_ACCESS_TOKEN e) (GCS_CREDENTIALS e);
          localBucket = gcs_bucket_override e;
          localToken = gcs_token_override e
      in \<lparr> bucket = js_or_str (js_or localBucket envBucket) [],
           token = js_or_str (js_or localToken envToken) [],
           isConfigured = (truthy (js_or localBucket envBucket) \<and> truthy (js_or localToken envToken)),
           source = (if truthy (js_or localBucket localToken) then ''manual''
                     else if truthy (js_or envBucket envToken) then ''env'' else ''none'') \<rparr>)"

text \<open>
  The effects of an upload, in the order the code performs them: console output, the
  \<^verbatim>\<open>fetch\<close> of the data URI that turns it into a blob, and the POST request to the bucket
  endpoint (URL, Authorization header, Content-Type header, body).
\<close>

type_synonym blob = "nat list"

datatype effect =
    ConsoleDebug string
  | ConsoleWarn string
  | ConsoleLog string
  | ConsoleError string "js_error option"
  | FetchDataUri string
  | FetchPost string string string blob

text \<open>
  The response of the POST request: its status and the outcome of reading its body with
  \<^verbatim>\<open>response.text()\<close>. \<^verbatim>\<open>response.ok\<close> is defined by the Fetch standard as a status
  from 200 to 299.
\<close>

record response =
  status :: nat
  text_body :: "js_error + string"

definition ok :: "response \<Rightarrow> bool" where
  "ok r \<longleftrightarrow> 200 \<le> status r \<and> status r \<le> 299"

text \<open>
  \<^verbatim>\<open>base64Data.match(/^data:([^;]+);base64,/)\<close>, then group 1 or \<^verbatim>\<open>'image/png'\<close>. The class
  \<^verbatim>\<open>[^;]+\<close> is greedy and cannot cross a semicolon, so the group is the run up to the first
  semicolon, which must be non-empty and followed by \<^verbatim>\<open>;base64,\<close>.
\<close>

definition mimeType_of :: "string \<Rightarrow> string" where
  "mimeType_of base64Data =
     (if prefix ''data:'' base64Data then
        (let r = drop 5 base64Data; m = takeWhile (\<lambda>c. c \<noteq> CHR '';'') r
         in if m \<noteq> [] \<and> prefix '';base64,'' (drop (length m) r) then m else ''image/png'')
      else ''image/png'')"

definition fileName_of :: "string \<Rightarrow> string" where
  "fileName_of ident = ''infographic_'' @ ident @ ''.png''"

definition uploadUrl_of :: "string \<Rightarrow> string \<Rightarrow> string" where
  "uploadUrl_of b fileName =
     ''https://storage.googleapis.com/upload/storage/v1/b/'' @ b
       @ ''/o?uploadType=media&name='' @ fileName"

text \<open>
  The body of the \<^verbatim>\<open>try\<close> block of \<^verbatim>\<open>uploadToGCS\<close>. The two things the world decides are
  parameters: \<open>decoded\<close>, the outcome of \<^verbatim>\<open>(await fetch(base64Data)).blob()\<close>, and \<open>posted\<close>,
  the outcome of the POST. The result is the value returned or the exception thrown inside
  the block, with the effects performed up to there.
\<close>

definition upload_try :: "StorageConfig \<Rightarrow> string \<Rightarrow> string \<Rightarrow> js_error + blob
    \<Rightarrow> js_error + response \<Rightarrow> (js_error + bool) \<times> effect list" where
  "upload_try config base64Data ident decoded posted =
     (let mimeType = mimeType_of base64Data in
      case decoded of
        Inl e \<Rightarrow> (Inl e, [FetchDataUri base64Data])
      | Inr blob \<Rightarrow>
          (let fileName = fileName_of ident;
               uploadUrl = uploadUrl_of (bucket config) fileName;
               request = [FetchDataUri base64Data,
                          FetchPost uploadUrl (''Bearer '' @ token config) mimeType blob]
           in case posted of
                Inl e \<Rightarrow> (Inl e, request)
              | Inr resp \<Rightarrow>
                  if \<not> ok resp then
                    (case text_body resp of
                       Inl e \<Rightarrow> (Inl e, request)
                     | Inr errorText \<Rightarrow>
                         (Inl (JsError (Some (''GCS API error ('' @ toString_nat (status resp)
                                               @ ''): '' @ errorText))),
                          request @
                          (if status resp = 401 \<or> status resp = 403
                           then [ConsoleError ''GCS Auth Error: Token likely expired.'' None]
                           else [])))
                  else
                    (Inr True,
                     request @ [ConsoleLog (''Successfully backed up '' @ fileName
                                            @ '' to GCS bucket: '' @ bucket config)])))"

text \<open>
  \<^verbatim>\<open>uploadToGCS\<close> of services/storageService.ts: the promise it returns is resolved with a
  boolean (\<open>Inr\<close>) or rejected (\<open>Inl\<close>).
\<close>

definition uploadToGCS :: "gcs_sources \<Rightarrow> string \<Rightarrow> string \<Rightarrow> js_error + blob
    \<Rightarrow> js_error + response \<Rightarrow> (js_error + bool) \<times> effect list" where
  "uploadToGCS e base64Data ident decoded posted =
     (let config = getGCSConfig e in
      if \<not> isConfigured config then
        (Inr False, [ConsoleDebug ''GCS Upload skipped: Configuration missing.''])
      else
        (case upload_try config base64Data ident decoded posted of
           (Inl err, effs) \<Rightarrow>
             (Inr False,
              effs @ [ConsoleError ''Failed to automatically save graphic to GCS:'' (Some err)])
         | (Inr b, effs) \<Rightarrow> (Inr b, effs)))"

text \<open>
  The earlier \<^verbatim>\<open>uploadToGCS\<close> (it reads the environment only and resolves to nothing): the
  same request, without the check for 401 and 403 and without a returned boolean.
\<close>

definition upload_try_v0 :: "string \<Rightarrow> string \<Rightarrow> string \<Rightarrow> string \<Rightarrow> js_error + blob
    \<Rightarrow> js_error + response \<Rightarrow> (js_error + unit) \<times> effect list" where
  "upload_try_v0 b t base64Data ident decoded posted =
     (let mimeType = mimeType_of base64Data in
      case decoded of
        Inl e \<Rightarrow> (Inl e, [FetchDataUri base64Data])
      | Inr blob \<Rightarrow>
          (let fileName = fileName_of ident;
               uploadUrl = uploadUrl_of b fileName;
               request = [FetchDataUri base64Data,
                          FetchPost uploadUrl (''Bearer '' @ t) mimeType blob]
           in case posted of
                Inl e \<Rightarrow> (Inl e, request)
              | Inr resp \<Rightarrow>
                  if \<not> ok resp then
                    (case text_body resp of
                       Inl e \<Rightarrow> (Inl e, request)
                     | Inr errorText \<Rightarrow>
                         (Inl (JsError (Some (''GCS API error ('' @ toString_nat (status resp)
                                               @ ''): '' @ errorText))),
                          request))
                  else
                    (Inr (),
                     request @ [ConsoleLog (''Successfully backed up '' @ fileName
                                            @ '' to GCS bucket: '' @ b)])))"

definition uploadToGCS_v0 :: "gcs_sources \<Rightarrow> string \<Rightarrow> string \<Rightarrow> js_error + blob
    \<Rightarrow> js_error + response \<Rightarrow> (js_error + unit) \<times> effect list" where
  "uploadToGCS_v0 e base64Data ident decoded posted =
     (let b = GCS_BUCKET_NAME e;
          t = js_or (GCS_ACCESS_TOKEN e) (GCS_CREDENTIALS e)
      in if \<not> truthy b \<or> \<not> truthy t then
           (Inr (), [ConsoleWarn ''GCS Upload skipped: GCS_BUCKET_NAME or GCS_ACCESS_TOKEN (credentials) environment variables are not defined.''])
         else
           (case upload_try_v0 (js_or_str b []) (js_or_str t []) base64Data ident decoded posted of
              (Inl err, effs) \<Rightarrow>
                (Inr (),
                 effs @ [ConsoleError ''Failed to automatically save graphic to GCS:'' (Some err)])
            | (Inr u, effs) \<Rightarrow> (Inr u, effs)))"

text \<open>The requests to the bucket endpoint among the effects of a call.\<close>

fun is_upload_request :: "effect \<Rightarrow> bool" where
  "is_upload_request (FetchPost u a m b) = True"
| "is_upload_request _ = False"

fun is_request :: "effect \<Rightarrow> bool" where
  "is_request (FetchPost u a m b) = True"
| "is_request (FetchDataUri d) = True"
| "is_request _ = False"

fun is_error_log :: "effect \<Rightarrow> bool" where
  "is_error_log (ConsoleError m e) = True"
| "is_error_log _ = False"

definition upload_attempts :: "effect list \<Rightarrow> nat" where
  "upload_attempts effs = length (filter is_upload_request effs)"

section \<open>services/geminiService.ts: the research client\<close>

definition getLevelInstruction :: "string \<Rightarrow> string" where
  "getLevelInstruction level =
     (if level = ''Elementary'' then
        ''Target Audience: Elementary School (Ages 6-10). Style: Bright, simple, fun. Use large clear icons and very minimal text labels.''
      else if level = ''High School'' then
        ''Target Audience: High School. Style: Standard Textbook. Clean lines, clear labels, accurate maps or diagrams. Avoid cartoony elements.''
      else if level = ''College'' then
        ''Target Audience: University. Style: Academic Journal. High detail, data-rich, precise cross-sections or complex schematics.''
      else if level = ''Expert'' then
        ''Target Audience: Industry Expert. Style: Technical Blueprint/Schematic. Extremely dense detail, monochrome or technical coloring, precise annotations.''
      else ''Target Audience: General Public. Style: Clear and engaging.'')"

definition getStyleInstruction :: "string \<Rightarrow> string" where
  "getStyleInstruction style =
     (if style = ''Minimalist'' then
        ''Aesthetic: Bauhaus Minimalist. Flat vector art, limited color palette (2-3 colors), reliance on negative space and simple geometric shapes.''
      else if style = ''Realistic'' then
        ''Aesthetic: Photorealistic Composite. Cinematic lighting, 8k resolution, highly detailed textures. Looks like a photograph.''
      else if style = ''Cartoon'' then
        ''Aesthetic: Educational Comic. Vibrant colors, thick outlines, expressive cel-shaded style.''
      else if style = ''Vintage'' then
        ''Aesthetic: 19th Century Scientific Lithograph. Engraving style, sepia tones, textured paper background, fine hatch lines.''
      else if style = ''Futuristic'' then
        ''Aesthetic: Cyberpunk HUD. Glowing neon blue/cyan lines on dark background, holographic data visualization, 3D wireframes.''
      else if style = ''3D Render'' then
        ''Aesthetic: 3D Isometric Render. Claymorphism or high-gloss plastic texture, studio lighting, soft shadows, looks like a physical model.''
      else if style = ''Sketch'' then
        ''Aesthetic: Da Vinci Notebook. Ink on parchment sketch, handwritten annotations style, rough but accurate lines.''
      else ''Aesthetic: High-quality digital scientific illustration. Clean, modern, highly detailed.'')"

text \<open>
  Matching with the flag \<^verbatim>\<open>i\<close>: a code unit of the input matches a letter of the pattern when
  both have the same upper case. Only the ASCII letters change; no other code unit
  canonicalises to an ASCII letter.
\<close>

definition to_upper :: "char \<Rightarrow> char" where
  "to_upper c =
     (case map_of (zip ''abcdefghijklmnopqrstuvwxyz'' ''ABCDEFGHIJKLMNOPQRSTUVWXYZ'') c of
        None \<Rightarrow> c
      | Some u \<Rightarrow> u)"

fun ci_prefix :: "string \<Rightarrow> string \<Rightarrow> bool" where
  "ci_prefix [] s = True"
| "ci_prefix (p # ps) [] = False"
| "ci_prefix (p # ps) (c # cs) = (to_upper p = to_upper c \<and> ci_prefix ps cs)"

text \<open>
  The leftmost place where the literal pattern \<open>p\<close> matches, ignoring case: the result is the
  input after the match.
\<close>

fun search_ci :: "string \<Rightarrow> string \<Rightarrow> string option" where
  "search_ci p [] = (if p = [] then Some [] else None)"
| "search_ci p (c # cs) =
     (if ci_prefix p (c # cs) then Some (drop (length p) (c # cs)) else search_ci p cs)"

text \<open>
  The lazy group \<^verbatim>\<open>([\s\S]*?)\<close> before the lookahead \<^verbatim>\<open>(?=IMAGE_PROMPT:|$)\<close>: the shortest run
  after which the pattern \<open>p\<close> matches or the input ends.
\<close>

fun lazy_until :: "string \<Rightarrow> string \<Rightarrow> string" where
  "lazy_until p [] = []"
| "lazy_until p (c # cs) = (if ci_prefix p (c # cs) then [] else c # lazy_until p cs)"

text \<open>
  Group 1 of \<^verbatim>\<open>text.match(/FACTS:\s*([\s\S]*?)(?=IMAGE_PROMPT:|$)/i)\<close>. The greedy \<^verbatim>\<open>\s*\<close>
  never gives back: the lazy group after it can always reach the end of the input.
\<close>

definition factsMatch :: "string \<Rightarrow> string option" where
  "factsMatch txt =
     map_option (\<lambda>rest. lazy_until ''IMAGE_PROMPT:'' (dropWhile is_space rest))
       (search_ci ''FACTS:'' txt)"

text \<open>
  Group 1 of \<^verbatim>\<open>text.match(/IMAGE_PROMPT:\s*([\s\S]*?)$/i)\<close>: without the flag \<^verbatim>\<open>m\<close> the
  anchor is the end of the input, so the group is everything after the white space.
\<close>

definition promptMatch :: "string \<Rightarrow> string option" where
  "promptMatch txt = map_option (dropWhile is_space) (search_ci ''IMAGE_PROMPT:'' txt)"

text \<open>\<^verbatim>\<open>f.replace(/^-\s*/, '')\<close> on one line.\<close>

fun strip_dash :: "string \<Rightarrow> string" where
  "strip_dash [] = []"
| "strip_dash (c # cs) = (if c = CHR ''-'' then dropWhile is_space cs else c # cs)"

definition parse_facts :: "string \<Rightarrow> string list" where
  "parse_facts txt =
     (let factsRaw = (case factsMatch txt of Some g \<Rightarrow> trim g | None \<Rightarrow> [])
      in take 5 (filter (\<lambda>f. length f > 0) (map (\<lambda>f. trim (strip_dash f)) (split_nl factsRaw))))"

definition parse_imagePrompt :: "string \<Rightarrow> string \<Rightarrow> string \<Rightarrow> string \<Rightarrow> string" where
  "parse_imagePrompt txt topic levelInstr styleInstr =
     (case promptMatch txt of
        Some g \<Rightarrow> trim g
      | None \<Rightarrow> ''Create a detailed infographic about '' @ topic @ ''. ''
                  @ levelInstr @ '' '' @ styleInstr)"

record SearchResultItem =
  title :: string
  url :: string

text \<open>A grounding chunk: \<^verbatim>\<open>chunk.web?.uri\<close> and \<^verbatim>\<open>chunk.web?.title\<close> may each be missing.\<close>

record web_source =
  uri :: "string option"
  web_title :: "string option"

record groundingChunk =
  web :: "web_source option"

definition collect_searchResults :: "groundingChunk list \<Rightarrow> SearchResultItem list" where
  "collect_searchResults chunks =
     concat (map (\<lambda>chunk.
       (case web chunk of
          None \<Rightarrow> []
        | Some w \<Rightarrow>
            (case (uri w, web_title w) of
               (Some u, Some t) \<Rightarrow> if u \<noteq> [] \<and> t \<noteq> [] then [\<lparr> title = t, url = u \<rparr>] else []
             | _ \<Rightarrow> []))) chunks)"

text \<open>
  A JavaScript \<^verbatim>\<open>Map\<close> as the list of its entries in insertion order. \<^verbatim>\<open>set\<close> replaces the
  value of a key already present and leaves the entry where it is; a new key goes to the end.
  \<^verbatim>\<open>new Map(entries)\<close> sets the entries one after the other.
\<close>

fun Map_set :: "('k \<times> 'v) list \<Rightarrow> 'k \<Rightarrow> 'v \<Rightarrow> ('k \<times> 'v) list" where
  "Map_set [] k v = [(k, v)]"
| "Map_set ((k', v') # m) k v = (if k' = k then (k', v) # m else (k', v') # Map_set m k v)"

definition new_Map :: "('k \<times> 'v) list \<Rightarrow> ('k \<times> 'v) list" where
  "new_Map entries = foldl (\<lambda>m (k, v). Map_set m k v) [] entries"

definition uniqueResults :: "SearchResultItem list \<Rightarrow> SearchResultItem list" where
  "uniqueResults searchResults = map snd (new_Map (map (\<lambda>item. (url item, item)) searchResults))"

record ResearchResult =
  imagePrompt :: string
  facts :: "string list"
  searchResults :: "SearchResultItem list"

text \<open>
  What \<^verbatim>\<open>researchTopicForPrompt\<close> reads of the model's response: \<^verbatim>\<open>response.text\<close> and
  \<^verbatim>\<open>response.candidates?.[0]?.groundingMetadata?.groundingChunks\<close>.
\<close>

record GenerateContentResponse =
  response_text :: "string option"
  groundingChunks :: "groundingChunk list option"

text \<open>
  \<^verbatim>\<open>researchTopicForPrompt\<close>, from the outcome of the one request it awaits. A rejected
  request is not caught. The instruction text sent with the request decides none of the
  results and is left out.
\<close>

definition researchTopicForPrompt :: "string \<Rightarrow> string \<Rightarrow> string
    \<Rightarrow> js_error + GenerateContentResponse \<Rightarrow> js_error + ResearchResult" where
  "researchTopicForPrompt topic level style outcome =
     (let levelInstr = getLevelInstruction level;
          styleInstr = getStyleInstruction style
      in case outcome of
           Inl e \<Rightarrow> Inl e
         | Inr resp \<Rightarrow>
             (let txt = js_or_str (response_text resp) [];
                  found = (case groundingChunks resp of
                             None \<Rightarrow> []
                           | Some chunks \<Rightarrow> collect_searchResults chunks)
              in Inr \<lparr> imagePrompt = parse_imagePrompt txt topic levelInstr styleInstr,
                       facts = parse_facts txt,
                       searchResults = uniqueResults found \<rparr>))"

section \<open>App.tsx: the application controller\<close>

record GeneratedImage =
  img_id :: string
  img_data :: string
  img_prompt :: string
  img_timestamp :: nat
  img_level :: string
  img_style :: string
  img_language :: string
  img_aspectRatio :: string
  img_resolution :: string

record ContextSource =
  src_id :: string
  src_type :: string
  src_name :: string
  src_content :: string

text \<open>The state variables of the component \<^verbatim>\<open>App\<close>, one field for each \<^verbatim>\<open>useState\<close>.\<close>

record app_state =
  topic :: string
  activeImageId :: "string option"
  complexityLevel :: string
  visualStyle :: string
  language :: string
  aspectRatio :: string
  resolution :: string
  isLoading :: bool
  isSyncing :: bool
  loadingMessage :: string
  loadingStep :: nat
  loadingFacts :: "string list"
  error :: "string option"
  imageHistory :: "GeneratedImage list"
  currentSearchResults :: "SearchResultItem list"
  isDarkMode :: bool
  showStorageModal :: bool
  storageStatus :: StorageConfig
  contextSources :: "ContextSource list"
  showContextOptions :: bool
  showUrlInput :: bool
  urlInputValue :: string
  hasApiKey :: bool
  checkingKey :: bool

text \<open>
  The calls a handler makes to the services, with their arguments. The upload is started and
  not awaited.
\<close>

datatype call =
    CallResearchTopicForPrompt string string string string "string option"
  | CallGenerateInfographicImage string string string
  | CallEditInfographicImage string string
  | CallUploadToGCS string string

text \<open>\<^verbatim>\<open>const activeImage = imageHistory.find(img => img.id === activeImageId)\<close>.\<close>

definition activeImage :: "app_state \<Rightarrow> GeneratedImage option" where
  "activeImage s =
     (case activeImageId s of
        None \<Rightarrow> None
      | Some a \<Rightarrow> List.find (\<lambda>img. img_id img = a) (imageHistory s))"


definition contextData_of :: "ContextSource list \<Rightarrow> string option" where
  "contextData_of sources =
     (if length sources > 0 then
        Some (join ''\<newline>\<newline>---\<newline>\<newline>''
          (map (\<lambda>(index, source).
                  if src_type source = ''file'' then
                    ''SOURCE '' @ toString_nat (index + 1) @ '' (File: '' @ src_name source
                      @ ''):\<newline>'' @ src_content source
                  else
                    ''SOURCE '' @ toString_nat (index + 1) @ '' (URL: '' @ src_content source
                      @ ''):\<newline>Please visit this URL to gather relevant context.'')
               (enumerate 0 sources)))
      else None)"

definition effectiveTopic_of :: "string \<Rightarrow> ContextSource list \<Rightarrow> string" where
  "effectiveTopic_of tpc sources =
     (let effectiveTopic = trim tpc in
      if effectiveTopic = [] \<and> length sources > 0 then
        ''Create a comprehensive infographic visualizing the key concepts from the provided sources (''
          @ join '', '' (map src_name sources) @ '').''
      else effectiveTopic)"

text \<open>The test both \<^verbatim>\<open>catch\<close> blocks make on the error they caught.\<close>

definition access_failure :: "js_error \<Rightarrow> bool" where
  "access_failure err =
     (case message err of
        None \<Rightarrow> False
      | Some m \<Rightarrow> m \<noteq> [] \<and> (includes_str m ''Requested entity was not found''
                              \<or> includes_str m ''404'' \<or> includes_str m ''403''))"

definition catch_generate :: "js_error \<Rightarrow> app_state \<Rightarrow> app_state" where
  "catch_generate err s =
     (if access_failure err then
        s\<lparr> error := Some ''Access denied. The selected API key does not have access to the required models. Please select a project with billing enabled.'',
           hasApiKey := False \<rparr>
      else
        s\<lparr> error := Some ''The image generation service is temporarily unavailable. Please try again.'' \<rparr>)"

definition catch_edit :: "js_error \<Rightarrow> app_state \<Rightarrow> app_state" where
  "catch_edit err s =
     (if access_failure err then
        s\<lparr> error := Some ''Access denied. Please select a valid API key with billing enabled.'',
           hasApiKey := False \<rparr>
      else
        s\<lparr> error := Some ''Modification failed. Try a different command.'' \<rparr>)"

text \<open>The \<^verbatim>\<open>finally\<close> block of both handlers.\<close>

definition finally_block :: "app_state \<Rightarrow> app_state" where
  "finally_block s = s\<lparr> isLoading := False, loadingStep := 0 \<rparr>"

text \<open>
  \<^verbatim>\<open>handleGenerate\<close>, run from the submit event to the end of its \<^verbatim>\<open>finally\<close> block. The
  parameters are what the world decides: \<open>research\<close> and \<open>generated\<close>, the outcomes of the two
  awaited service calls (\<open>generated\<close> is looked at only after a successful research), and the two
  readings of \<^verbatim>\<open>Date.now()\<close>. The result is the state after the handler and the service
  calls it made.
\<close>

definition handleGenerate :: "app_state \<Rightarrow> js_error + ResearchResult \<Rightarrow> js_error + string
    \<Rightarrow> nat \<Rightarrow> nat \<Rightarrow> app_state \<times> call list" where
  "handleGenerate s research generated now_id now_ts =
     (if isLoading s then (s, [])
      else if trim (topic s) = [] \<and> length (contextSources s) = 0 then
        (s\<lparr> error := Some ''Please enter a topic or provide context (File/URL) to visualize.'' \<rparr>, [])
      else
        (let s1 = s\<lparr> isLoading := True, error := None, loadingStep := 1, loadingFacts := [],
                      currentSearchResults := [], loadingMessage := ''Researching...'' \<rparr>;
             contextData = contextData_of (contextSources s);
             effectiveTopic = effectiveTopic_of (topic s) (contextSources s);
             call1 = CallResearchTopicForPrompt effectiveTopic (complexityLevel s) (visualStyle s)
                       (language s) contextData
         in case research of
              Inl err \<Rightarrow> (finally_block (catch_generate err s1), [call1])
            | Inr researchResult \<Rightarrow>
                (let s2 = s1\<lparr> loadingFacts := facts researchResult,
                               currentSearchResults := searchResults researchResult,
                               loadingStep := 2,
                               loadingMessage := ''Designing Infographic...'' \<rparr>;
                     call2 = CallGenerateInfographicImage (imagePrompt researchResult)
                               (aspectRatio s) (resolution s)
                 in case generated of
                      Inl err \<Rightarrow> (finally_block (catch_generate err s2), [call1, call2])
                    | Inr base64Data \<Rightarrow>
                        (let newImageId = toString_nat now_id;
                             newImage = \<lparr> img_id = newImageId, img_data = base64Data,
                                          img_prompt = effectiveTopic, img_timestamp = now_ts,
                                          img_level = complexityLevel s, img_style = visualStyle s,
                                          img_language = language s,
                                          img_aspectRatio = aspectRatio s,
                                          img_resolution = resolution s \<rparr>;
                             s3 = s2\<lparr> imageHistory := newImage # imageHistory s2,
                                       activeImageId := Some newImageId,
                                       isSyncing := True \<rparr>
                         in (finally_block s3,
                             [call1, call2, CallUploadToGCS base64Data newImageId])))))"

text \<open>
  \<^verbatim>\<open>handleEdit\<close>, in the same way: \<open>edited\<close> is the outcome of the awaited
  \<^verbatim>\<open>editInfographicImage\<close>.
\<close>

definition handleEdit :: "app_state \<Rightarrow> string \<Rightarrow> js_error + string
    \<Rightarrow> nat \<Rightarrow> nat \<Rightarrow> app_state \<times> call list" where
  "handleEdit s editPrompt edited now_id now_ts =
     (if \<not> truthy (activeImageId s) then (s, [])
      else
        (case activeImage s of
           None \<Rightarrow> (s, [])
         | Some currentImage \<Rightarrow>
             (let s1 = s\<lparr> isLoading := True, error := None, loadingStep := 2,
                           loadingMessage := ''Processing Modification: '' @ [CHR 0x22] @ editPrompt
                                               @ [CHR 0x22] @ ''...'' \<rparr>;
                  call1 = CallEditInfographicImage (img_data currentImage) editPrompt
              in case edited of
                   Inl err \<Rightarrow> (finally_block (catch_edit err s1), [call1])
                 | Inr base64Data \<Rightarrow>
                     (let newImageId = toString_nat now_id;
                          newImage = \<lparr> img_id = newImageId, img_data = base64Data,
                                       img_prompt = editPrompt, img_timestamp = now_ts,
                                       img_level = img_level currentImage,
                                       img_style = img_style currentImage,
                                       img_language = img_language currentImage,
                                       img_aspectRatio = img_aspectRatio currentImage,
                                       img_resolution = img_resolution currentImage \<rparr>;
                          s2 = s1\<lparr> imageHistory := newImage # imageHistory s1,
                                    activeImageId := Some newImageId,
                                    isSyncing := True \<rparr>
                      in (finally_block s2, [call1, CallUploadToGCS base64Data newImageId])))))"

text \<open>The other handlers that change what a cycle reads.\<close>

definition handleNewSession :: "app_state \<Rightarrow> app_state" where
  "handleNewSession s =
     s\<lparr> topic := [], contextSources := [], activeImageId := None, currentSearchResults := [],
        error := None, loadingFacts := [], loadingStep := 0, loadingMessage := [] \<rparr>"

text \<open>
  What can happen to the controller between and during cycles: the user types a topic, the
  context sources change, a new session is started, or a handler runs with the outcomes the
  world gives it.
\<close>

datatype action =
    SetTopic string
  | SetContextSources "ContextSource list"
  | NewSession
  | Generate "js_error + ResearchResult" "js_error + string" nat nat
  | Edit string "js_error + string" nat nat

fun step :: "app_state \<Rightarrow> action \<Rightarrow> app_state" where
  "step s (SetTopic t) = s\<lparr> topic := t \<rparr>"
| "step s (SetContextSources cs) = s\<lparr> contextSources := cs \<rparr>"
| "step s NewSession = handleNewSession s"
| "step s (Generate research generated now_id now_ts) =
     fst (handleGenerate s research generated now_id now_ts)"
| "step s (Edit editPrompt edited now_id now_ts) =
     fst (handleEdit s editPrompt edited now_id now_ts)"

definition run :: "app_state \<Rightarrow> action list \<Rightarrow> app_state" where
  "run s acts = foldl step s acts"

text \<open>
  The guards of the two handlers: \<^verbatim>\<open>handleGenerate\<close> goes on when no cycle is loading and
  there is a topic or a context source; \<^verbatim>\<open>handleEdit\<close> goes on when there is an active image
  id and the history has an image with that id.
\<close>

definition generate_runs :: "app_state \<Rightarrow> bool" where
  "generate_runs s \<longleftrightarrow> \<not> isLoading s \<and> \<not> (trim (topic s) = [] \<and> contextSources s = [])"

definition edit_runs :: "app_state \<Rightarrow> bool" where
  "edit_runs s \<longleftrightarrow> truthy (activeImageId s) \<and> activeImage s \<noteq> None"

text \<open>
  A cycle is successful when the handler gets past its guards and every service call it awaits
  is fulfilled; then \<open>produced\<close> is the payload of the image the cycle produced.
\<close>

fun produced :: "app_state \<Rightarrow> action \<Rightarrow> string option" where
  "produced s (Generate research generated now_id now_ts) =
     (if generate_runs s
      then (case (research, generated) of (Inr r, Inr d) \<Rightarrow> Some d | _ \<Rightarrow> None) else None)"
| "produced s (Edit editPrompt edited now_id now_ts) =
     (if edit_runs s then (case edited of Inr d \<Rightarrow> Some d | Inl e \<Rightarrow> None) else None)"
| "produced s _ = None"

text \<open>The payloads produced by the successful cycles of a run, the latest first.\<close>

fun produced_by :: "app_state \<Rightarrow> action list \<Rightarrow> string list" where
  "produced_by s [] = []"
| "produced_by s (a # acts) =
     produced_by (step s a) acts @ (case produced s a of Some d \<Rightarrow> [d] | None \<Rightarrow> [])"

text \<open>A grounding chunk that carries the title and the URL of a citation entry.\<close>

definition chunk_of :: "SearchResultItem \<Rightarrow> groundingChunk" where
  "chunk_of item = \<lparr> web = Some \<lparr> uri = Some (url item), web_title = Some (title item) \<rparr> \<rparr>"

text \<open>
  The state of the component when it is mounted: the initial value of every \<^verbatim>\<open>useState\<close>;
  \<open>e\<close> is what \<^verbatim>\<open>getGCSConfig\<close> reads at that moment.
\<close>

definition initial_state :: "gcs_sources \<Rightarrow> app_state" where
  "initial_state e =
     \<lparr> topic = [], activeImageId = None, complexityLevel = ''Expert'',
       visualStyle = ''Default'', language = ''English'', aspectRatio = ''16:9'',
       resolution = ''1K'', isLoading = False, isSyncing = False, loadingMessage = [],
       loadingStep = 0, loadingFacts = [], error = None, imageHistory = [],
       currentSearchResults = [], isDarkMode = True, showStorageModal = False,
       storageStatus = getGCSConfig e, contextSources = [], showContextOptions = False,
       showUrlInput = False, urlInputValue = [], hasApiKey = False, checkingKey = True \<rparr>"

text \<open>
  Two states used as examples. In \<open>ready_state\<close> the component is mounted, the key check is
  done and the user has typed a topic. In \<open>loading_state\<close> one image is in the history and
  active, and a generation cycle is in flight (it has set the loading flag and awaits the
  research).
\<close>

definition ready_state :: app_state where
  "ready_state =
     (initial_state \<lparr> GCS_BUCKET_NAME = None, GCS_ACCESS_TOKEN = None, GCS_CREDENTIALS = None,
                      gcs_bucket_override = None, gcs_token_override = None \<rparr>)
       \<lparr> topic := ''Tides'', hasApiKey := True, checkingKey := False \<rparr>"

definition loading_state :: app_state where
  "loading_state =
     ready_state
       \<lparr> imageHistory := [\<lparr> img_id = ''5'', img_data = ''data:image/png;base64,AAAA'',
                            img_prompt = ''Tides'', img_timestamp = 5, img_level = ''Expert'',
                            img_style = ''Default'', img_language = ''English'',
                            img_aspectRatio = ''16:9'', img_resolution = ''1K'' \<rparr>],
         activeImageId := Some ''5'', isLoading := True, loadingStep := 1,
         loadingMessage := ''Researching...'' \<rparr>"

text \<open>
  The pattern \<open>p\<close> occurs somewhere in \<open>s\<close> when case is ignored; this is what it means for a
  response text to have a section header such as \<^verbatim>\<open>IMAGE_PROMPT:\<close>.
\<close>

definition ci_occurs :: "string \<Rightarrow> string \<Rightarrow> bool" where
  "ci_occurs p s \<longleftrightarrow>
     (\<exists>pre hdr post. s = pre @ hdr @ post \<and> map to_upper hdr = map to_upper p)"

text \<open>A bullet line: a dash followed by the text \<open>c\<close> of the bullet.\<close>

definition bullet :: "string \<Rightarrow> string" where
  "bullet c = CHR ''-'' # c"





section \<open>Properties of the configuration resolver\<close>

lemma truthy_Some [simp]: "truthy (Some s) \<longleftrightarrow> s \<noteq> []"
  by (simp add: truthy_def)

lemma truthy_None [simp]: "\<not> truthy None"
  by (simp add: truthy_def)

lemma truthy_js_or: "truthy (js_or a b) \<longleftrightarrow> truthy a \<or> truthy b"
  by (simp add: js_or_def)

lemma js_or_str_truthy: "truthy a \<Longrightarrow> js_or_str a d = the a"
  by (cases a) (simp_all add: js_or_str_def)

lemma js_or_str_falsy: "\<not> truthy a \<Longrightarrow> js_or_str a d = d"
  by (cases a) (simp_all add: js_or_str_def)

text \<open>
  Claim C2. A value is present when it is a non-empty string (\<^const>\<open>truthy\<close>); the token of
  the environment is \<^verbatim>\<open>GCS_ACCESS_TOKEN || GCS_CREDENTIALS\<close>. For every combination of the
  override bucket, the override token, the environment bucket and the environment token,
  \<^verbatim>\<open>getGCSConfig\<close> reports \<open>isConfigured\<close> exactly when a bucket is present in either place
  and a token is present in either place; the bucket and the token it returns are the
  override when that is present, else the value of the environment, else the empty string;
  and \<open>source\<close> is \<^verbatim>\<open>manual\<close> when an override is present, else \<^verbatim>\<open>env\<close> when a value of the
  environment is present, else \<^verbatim>\<open>none\<close>.
\<close>

theorem getGCSConfig_precedence:
  "(isConfigured (getGCSConfig e) \<longleftrightarrow>
      (truthy (gcs_bucket_override e) \<or> truthy (GCS_BUCKET_NAME e))
    \<and> (truthy (gcs_token_override e) \<or> truthy (js_or (GCS_ACCESS_TOKEN e) (GCS_CREDENTIALS e))))
   \<and> (\<forall>b. gcs_bucket_override e = Some b \<and> b \<noteq> [] \<longrightarrow> bucket (getGCSConfig e) = b)
   \<and> (\<forall>b. \<not> truthy (gcs_bucket_override e) \<and> GCS_BUCKET_NAME e = Some b \<and> b \<noteq> []
          \<longrightarrow> bucket (getGCSConfig e) = b)
   \<and> (\<not> truthy (gcs_bucket_override e) \<and> \<not> truthy (GCS_BUCKET_NAME e)
          \<longrightarrow> bucket (getGCSConfig e) = [])
   \<and> (\<forall>t. gcs_token_override e = Some t \<and> t \<noteq> [] \<longrightarrow> token (getGCSConfig e) = t)
   \<and> (\<forall>t. \<not> truthy (gcs_token_override e)
            \<and> js_or (GCS_ACCESS_TOKEN e) (GCS_CREDENTIALS e) = Some t \<and> t \<noteq> []
          \<longrightarrow> token (getGCSConfig e) = t)
   \<and> (\<not> truthy (gcs_token_override e)
            \<and> \<not> truthy (js_or (GCS_ACCESS_TOKEN e) (GCS_CREDENTIALS e))
          \<longrightarrow> token (getGCSConfig e) = [])
   \<and> source (getGCSConfig e) =
        (if truthy (gcs_bucket_override e) \<or> truthy (gcs_token_override e) then ''manual''
         else if truthy (GCS_BUCKET_NAME e)
                 \<or> truthy (js_or (GCS_ACCESS_TOKEN e) (GCS_CREDENTIALS e)) then ''env''
         else ''none'')"
  by (simp add: getGCSConfig_def Let_def truthy_js_or js_or_str_truthy js_or_str_falsy)
     (auto simp: js_or_def js_or_str_def truthy_def split: option.splits)

text \<open>
  An override bucket with the token taken from \<^verbatim>\<open>GCS_CREDENTIALS\<close>: the override wins over
  the bucket of the environment, and the source is \<^verbatim>\<open>manual\<close>.
\<close>

theorem getGCSConfig_precedence_witness:
  "getGCSConfig \<lparr> GCS_BUCKET_NAME = Some ''env-bucket'', GCS_ACCESS_TOKEN = None,
           GCS_CREDENTIALS = Some ''env-creds'', gcs_bucket_override = Some ''my-bucket'',
           gcs_token_override = None \<rparr>
     = \<lparr> bucket = ''my-bucket'', token = ''env-creds'', isConfigured = True, source = ''manual'' \<rparr>"
  using getGCSConfig_precedence [of "\<lparr> GCS_BUCKET_NAME = Some ''env-bucket'', GCS_ACCESS_TOKEN = None,
           GCS_CREDENTIALS = Some ''env-creds'', gcs_bucket_override = Some ''my-bucket'',
           gcs_token_override = None \<rparr>"]
  by (simp add: js_or_def)

section \<open>Properties of the object storage uploader\<close>

lemma upload_try_attempts:
  "upload_attempts (snd (upload_try c d i dec post)) = (case dec of Inl e \<Rightarrow> 0 | Inr b \<Rightarrow> 1)"
  by (simp add: upload_try_def upload_attempts_def Let_def split: sum.splits)

lemma upload_try_True:
  "fst (upload_try c d i dec post) = Inr b \<longleftrightarrow>
     b \<and> (\<exists>bl r. dec = Inr bl \<and> post = Inr r \<and> ok r)"
  by (auto simp: upload_try_def Let_def split: sum.splits)

lemma uploadToGCS_skipped:
  "\<not> isConfigured (getGCSConfig e) \<Longrightarrow>
     uploadToGCS e d i dec post =
       (Inr False, [ConsoleDebug ''GCS Upload skipped: Configuration missing.''])"
  by (simp add: uploadToGCS_def)

lemma uploadToGCS_configured:
  "isConfigured (getGCSConfig e) \<Longrightarrow>
     uploadToGCS e d i dec post =
       (case upload_try (getGCSConfig e) d i dec post of
          (Inl err, effs) \<Rightarrow>
            (Inr False,
             effs @ [ConsoleError ''Failed to automatically save graphic to GCS:'' (Some err)])
        | (Inr b, effs) \<Rightarrow> (Inr b, effs))"
  by (simp add: uploadToGCS_def)

lemma uploadToGCS_resolves: "\<exists>b. fst (uploadToGCS e d i dec post) = Inr b"
  by (cases "isConfigured (getGCSConfig e)")
     (auto simp: uploadToGCS_skipped uploadToGCS_configured split: prod.splits sum.splits)

lemma uploadToGCS_True:
  "fst (uploadToGCS e d i dec post) = Inr True \<longleftrightarrow>
     isConfigured (getGCSConfig e) \<and> (\<exists>bl r. dec = Inr bl \<and> post = Inr r \<and> ok r)"
proof (cases "isConfigured (getGCSConfig e)")
  case False
  then show ?thesis by (simp add: uploadToGCS_skipped)
next
  case True
  obtain res effs where t: "upload_try (getGCSConfig e) d i dec post = (res, effs)"
    by (cases "upload_try (getGCSConfig e) d i dec post")
  have "fst (uploadToGCS e d i dec post) = Inr True \<longleftrightarrow> res = Inr True"
    using True t by (cases res) (simp_all add: uploadToGCS_configured)
  also have "\<dots> \<longleftrightarrow> (\<exists>bl r. dec = Inr bl \<and> post = Inr r \<and> ok r)"
    using upload_try_True [of "getGCSConfig e" d i dec post True] t by simp
  finally show ?thesis using True by simp
qed

lemma uploadToGCS_attempts:
  "upload_attempts (snd (uploadToGCS e d i dec post)) =
     (if isConfigured (getGCSConfig e) then (case dec of Inl e \<Rightarrow> 0 | Inr b \<Rightarrow> 1) else 0)"
proof (cases "isConfigured (getGCSConfig e)")
  case False
  then show ?thesis by (simp add: uploadToGCS_skipped upload_attempts_def)
next
  case True
  obtain res effs where t: "upload_try (getGCSConfig e) d i dec post = (res, effs)"
    by (cases "upload_try (getGCSConfig e) d i dec post")
  have "upload_attempts (snd (uploadToGCS e d i dec post)) = upload_attempts effs"
    using True t by (cases res) (simp_all add: uploadToGCS_configured upload_attempts_def)
  then show ?thesis
    using upload_try_attempts [of "getGCSConfig e" d i dec post] t True by simp
qed

lemma uploadToGCS_failure_logged:
  assumes "isConfigured (getGCSConfig e)" and "fst (uploadToGCS e d i dec post) \<noteq> Inr True"
  shows "\<exists>err. last (snd (uploadToGCS e d i dec post)) =
           ConsoleError ''Failed to automatically save graphic to GCS:'' (Some err)"
proof -
  obtain res effs where t: "upload_try (getGCSConfig e) d i dec post = (res, effs)"
    by (cases "upload_try (getGCSConfig e) d i dec post")
  show ?thesis
  proof (cases res)
    case (Inl err)
    then show ?thesis using assms t by (simp add: uploadToGCS_configured)
  next
    case (Inr b)
    then have "b" using upload_try_True [of "getGCSConfig e" d i dec post b] t by simp
    then show ?thesis using assms t Inr by (simp add: uploadToGCS_configured)
  qed
qed

lemma uploadToGCS_skipped_no_request:
  "\<not> isConfigured (getGCSConfig e) \<Longrightarrow> filter is_request (snd (uploadToGCS e d i dec post)) = []"
  by (simp add: uploadToGCS_skipped)

lemma upload_try_v0_attempts:
  "upload_attempts (snd (upload_try_v0 b t d i dec post)) = (case dec of Inl e \<Rightarrow> 0 | Inr b \<Rightarrow> 1)"
  by (simp add: upload_try_v0_def upload_attempts_def Let_def split: sum.splits)

lemma uploadToGCS_v0_resolves: "fst (uploadToGCS_v0 e d i dec post) = Inr ()"
  by (auto simp: uploadToGCS_v0_def Let_def split: prod.splits sum.splits)

lemma uploadToGCS_v0_attempts:
  "upload_attempts (snd (uploadToGCS_v0 e d i dec post)) =
     (if truthy (GCS_BUCKET_NAME e) \<and> truthy (js_or (GCS_ACCESS_TOKEN e) (GCS_CREDENTIALS e))
      then (case dec of Inl e \<Rightarrow> 0 | Inr b \<Rightarrow> 1) else 0)"
proof -
  obtain res effs where t: "upload_try_v0 (js_or_str (GCS_BUCKET_NAME e) [])
      (js_or_str (js_or (GCS_ACCESS_TOKEN e) (GCS_CREDENTIALS e)) []) d i dec post = (res, effs)"
    by (cases "upload_try_v0 (js_or_str (GCS_BUCKET_NAME e) [])
      (js_or_str (js_or (GCS_ACCESS_TOKEN e) (GCS_CREDENTIALS e)) []) d i dec post")
  show ?thesis
    using t upload_try_v0_attempts [of "js_or_str (GCS_BUCKET_NAME e) []"
      "js_or_str (js_or (GCS_ACCESS_TOKEN e) (GCS_CREDENTIALS e)) []" d i dec post]
    by (cases res) (auto simp: uploadToGCS_v0_def Let_def upload_attempts_def)
qed

text \<open>
  Claim C4, as amended. Whatever the data URI, the identifier, the outcome of turning the
  data URI into a blob and the outcome of the POST request (a response of any status, a
  body that cannot be read, or a transport exception), the promise of \<^verbatim>\<open>uploadToGCS\<close> is
  never rejected, in either version of the function. Without a resolved configuration it
  makes no request at all. With one it makes at most one upload request: exactly one when
  the data URI could be turned into a blob, none when that step threw. It resolves to
  \<^verbatim>\<open>true\<close> exactly when the configuration is resolved, the upload request was made and its
  response has a status from 200 to 299; every other configured call resolves to \<^verbatim>\<open>false\<close>
  and ends by logging the caught error with \<^verbatim>\<open>console.error\<close>. The reads of the
  environment and of \<^verbatim>\<open>localStorage\<close> are taken to return a string or nothing.
\<close>

theorem uploadToGCS_contained:
  "(\<exists>b. fst (uploadToGCS e d i dec post) = Inr b)
   \<and> fst (uploadToGCS_v0 e d i dec post) = Inr ()
   \<and> (\<not> isConfigured (getGCSConfig e) \<longrightarrow>
         filter is_request (snd (uploadToGCS e d i dec post)) = [])
   \<and> (isConfigured (getGCSConfig e) \<longrightarrow>
         upload_attempts (snd (uploadToGCS e d i dec post))
           = (case dec of Inl err \<Rightarrow> 0 | Inr bl \<Rightarrow> 1))
   \<and> upload_attempts (snd (uploadToGCS_v0 e d i dec post))
         = (if truthy (GCS_BUCKET_NAME e)
               \<and> truthy (js_or (GCS_ACCESS_TOKEN e) (GCS_CREDENTIALS e))
            then (case dec of Inl err \<Rightarrow> 0 | Inr bl \<Rightarrow> 1) else 0)
   \<and> (fst (uploadToGCS e d i dec post) = Inr True \<longleftrightarrow>
         isConfigured (getGCSConfig e)
         \<and> (\<exists>bl r. dec = Inr bl \<and> post = Inr r \<and> 200 \<le> status r \<and> status r \<le> 299))
   \<and> (isConfigured (getGCSConfig e) \<and> fst (uploadToGCS e d i dec post) \<noteq> Inr True \<longrightarrow>
         fst (uploadToGCS e d i dec post) = Inr False
         \<and> (\<exists>err. last (snd (uploadToGCS e d i dec post))
                    = ConsoleError ''Failed to automatically save graphic to GCS:'' (Some err)))"
proof -
  have never: "\<exists>b. fst (uploadToGCS e d i dec post) = Inr b"
    by (rule uploadToGCS_resolves)
  have false: "fst (uploadToGCS e d i dec post) \<noteq> Inr True
      \<Longrightarrow> fst (uploadToGCS e d i dec post) = Inr False"
    using never by auto
  show ?thesis
    using never false uploadToGCS_failure_logged [of e d i dec post]
    by (simp add: uploadToGCS_v0_resolves uploadToGCS_skipped_no_request uploadToGCS_attempts
        uploadToGCS_v0_attempts uploadToGCS_True ok_def)
qed

text \<open>A configured upload answered with status 403: one request, the result is \<^verbatim>\<open>false\<close>.\<close>

theorem uploadToGCS_contained_witness:
  "isConfigured (getGCSConfig \<lparr> GCS_BUCKET_NAME = Some ''b'', GCS_ACCESS_TOKEN = Some ''t'',
       GCS_CREDENTIALS = None, gcs_bucket_override = None, gcs_token_override = None \<rparr>)
   \<and> fst (uploadToGCS \<lparr> GCS_BUCKET_NAME = Some ''b'', GCS_ACCESS_TOKEN = Some ''t'',
         GCS_CREDENTIALS = None, gcs_bucket_override = None, gcs_token_override = None \<rparr>
         ''data:image/png;base64,AAAA'' ''17'' (Inr [0, 0, 0])
         (Inr \<lparr> status = 403, text_body = Inr ''Forbidden'' \<rparr>)) = Inr False
   \<and> upload_attempts (snd (uploadToGCS \<lparr> GCS_BUCKET_NAME = Some ''b'',
         GCS_ACCESS_TOKEN = Some ''t'', GCS_CREDENTIALS = None, gcs_bucket_override = None,
         gcs_token_override = None \<rparr>
         ''data:image/png;base64,AAAA'' ''17'' (Inr [0, 0, 0])
         (Inr \<lparr> status = 403, text_body = Inr ''Forbidden'' \<rparr>))) = 1"
  using uploadToGCS_contained [of "\<lparr> GCS_BUCKET_NAME = Some ''b'', GCS_ACCESS_TOKEN = Some ''t'',
         GCS_CREDENTIALS = None, gcs_bucket_override = None, gcs_token_override = None \<rparr>"
         "''data:image/png;base64,AAAA''" "''17''" "Inr [0, 0, 0]"
         "Inr \<lparr> status = 403, text_body = Inr ''Forbidden'' \<rparr>"]
  by (simp add: getGCSConfig_def js_or_def)

text \<open>
  Claim C4 as stated says that a call with a resolved configuration makes exactly one upload
  attempt. When \<^verbatim>\<open>fetch(base64Data)\<close> rejects (here on a data URI whose payload is not
  base64), the \<^verbatim>\<open>catch\<close> block is reached before the POST request: the call makes no
  upload attempt.
\<close>

theorem uploadToGCS_one_attempt_counterexample:
  "isConfigured (getGCSConfig \<lparr> GCS_BUCKET_NAME = Some ''b'', GCS_ACCESS_TOKEN = Some ''t'',
       GCS_CREDENTIALS = None, gcs_bucket_override = None, gcs_token_override = None \<rparr>)
   \<and> uploadToGCS \<lparr> GCS_BUCKET_NAME = Some ''b'', GCS_ACCESS_TOKEN = Some ''t'',
         GCS_CREDENTIALS = None, gcs_bucket_override = None, gcs_token_override = None \<rparr>
         ''data:image/png;base64,%'' ''17'' (Inl (JsError (Some ''Failed to fetch'')))
         (Inr \<lparr> status = 200, text_body = Inr [] \<rparr>)
       = (Inr False,
          [FetchDataUri ''data:image/png;base64,%'',
           ConsoleError ''Failed to automatically save graphic to GCS:''
             (Some (JsError (Some ''Failed to fetch'')))])
   \<and> upload_attempts [FetchDataUri ''data:image/png;base64,%'',
           ConsoleError ''Failed to automatically save graphic to GCS:''
             (Some (JsError (Some ''Failed to fetch'')))] \<noteq> 1"
  by (simp add: uploadToGCS_def upload_try_def getGCSConfig_def js_or_def js_or_str_def
      upload_attempts_def Let_def)

text \<open>
  Claim C10. \<^verbatim>\<open>uploadToGCS\<close> resolves to \<^verbatim>\<open>false\<close> when the configuration is unresolved (and
  then makes no request), and it resolves to \<^verbatim>\<open>false\<close> as well when the configuration is
  resolved and the upload does not end in a response with a status from 200 to 299. It
  resolves to \<^verbatim>\<open>true\<close> only when one upload request was made and answered with such a
  status. So for every data URI and identifier there are a skipped call and a call whose
  one upload request failed that return the same value, \<^verbatim>\<open>false\<close>.
\<close>

theorem uploadToGCS_false_ambiguous:
  "(\<not> isConfigured (getGCSConfig e) \<longrightarrow>
      fst (uploadToGCS e d i dec post) = Inr False
      \<and> filter is_request (snd (uploadToGCS e d i dec post)) = [])
   \<and> (isConfigured (getGCSConfig e)
        \<and> \<not> (\<exists>bl r. dec = Inr bl \<and> post = Inr r \<and> 200 \<le> status r \<and> status r \<le> 299) \<longrightarrow>
      fst (uploadToGCS e d i dec post) = Inr False)
   \<and> (fst (uploadToGCS e d i dec post) = Inr True \<longrightarrow>
      upload_attempts (snd (uploadToGCS e d i dec post)) = 1
      \<and> (\<exists>r. post = Inr r \<and> 200 \<le> status r \<and> status r \<le> 299))
   \<and> (\<exists>e1 e2 bl r.
        \<not> isConfigured (getGCSConfig e1) \<and> isConfigured (getGCSConfig e2)
        \<and> upload_attempts (snd (uploadToGCS e1 d i (Inr bl) (Inr r))) = 0
        \<and> upload_attempts (snd (uploadToGCS e2 d i (Inr bl) (Inr r))) = 1
        \<and> fst (uploadToGCS e1 d i (Inr bl) (Inr r)) = Inr False
        \<and> fst (uploadToGCS e2 d i (Inr bl) (Inr r)) = Inr False)"
proof -
  let ?e1 = "\<lparr> GCS_BUCKET_NAME = None, GCS_ACCESS_TOKEN = None, GCS_CREDENTIALS = None,
               gcs_bucket_override = None, gcs_token_override = None \<rparr>"
  let ?e2 = "\<lparr> GCS_BUCKET_NAME = Some ''b'', GCS_ACCESS_TOKEN = Some ''t'',
               GCS_CREDENTIALS = None, gcs_bucket_override = None, gcs_token_override = None \<rparr>"
  let ?r = "\<lparr> status = 403, text_body = Inr ''Forbidden'' \<rparr>"
  have c1: "\<not> isConfigured (getGCSConfig ?e1)"
    by (simp add: getGCSConfig_def js_or_def)
  have c2: "isConfigured (getGCSConfig ?e2)"
    by (simp add: getGCSConfig_def js_or_def)
  have b: "\<exists>b. fst (uploadToGCS e d i dec post) = Inr b"
    by (rule uploadToGCS_resolves)
  have b2: "\<exists>b. fst (uploadToGCS ?e2 d i (Inr []) (Inr ?r)) = Inr b"
    by (rule uploadToGCS_resolves)
  have f2: "fst (uploadToGCS ?e2 d i (Inr []) (Inr ?r)) = Inr False"
    using b2 uploadToGCS_True [of ?e2 d i "Inr []" "Inr ?r"] by (auto simp: ok_def)
  have pair: "\<not> isConfigured (getGCSConfig ?e1) \<and> isConfigured (getGCSConfig ?e2)
        \<and> upload_attempts (snd (uploadToGCS ?e1 d i (Inr []) (Inr ?r))) = 0
        \<and> upload_attempts (snd (uploadToGCS ?e2 d i (Inr []) (Inr ?r))) = 1
        \<and> fst (uploadToGCS ?e1 d i (Inr []) (Inr ?r)) = Inr False
        \<and> fst (uploadToGCS ?e2 d i (Inr []) (Inr ?r)) = Inr False"
  proof -
    have a1: "upload_attempts (snd (uploadToGCS ?e1 d i (Inr []) (Inr ?r))) = 0"
      using c1 by (simp add: uploadToGCS_attempts)
    have a2: "upload_attempts (snd (uploadToGCS ?e2 d i (Inr []) (Inr ?r))) = 1"
      using c2 by (simp add: uploadToGCS_attempts)
    have f1: "fst (uploadToGCS ?e1 d i (Inr []) (Inr ?r)) = Inr False"
      using c1 by (simp add: uploadToGCS_skipped)
    show ?thesis using c1 c2 a1 a2 f1 f2 by blast
  qed
  have ex: "\<exists>e1 e2 bl r.
        \<not> isConfigured (getGCSConfig e1) \<and> isConfigured (getGCSConfig e2)
        \<and> upload_attempts (snd (uploadToGCS e1 d i (Inr bl) (Inr r))) = 0
        \<and> upload_attempts (snd (uploadToGCS e2 d i (Inr bl) (Inr r))) = 1
        \<and> fst (uploadToGCS e1 d i (Inr bl) (Inr r)) = Inr False
        \<and> fst (uploadToGCS e2 d i (Inr bl) (Inr r)) = Inr False"
    using pair by blast
  have t: "fst (uploadToGCS e d i dec post) = Inr True \<longleftrightarrow>
     isConfigured (getGCSConfig e) \<and> (\<exists>bl r. dec = Inr bl \<and> post = Inr r \<and> 200 \<le> status r \<and> status r \<le> 299)"
    by (simp add: uploadToGCS_True ok_def)
  have nt: "fst (uploadToGCS e d i dec post) \<noteq> Inr True \<Longrightarrow> fst (uploadToGCS e d i dec post) = Inr False"
    using b by auto
  have p1: "\<not> isConfigured (getGCSConfig e) \<longrightarrow>
      fst (uploadToGCS e d i dec post) = Inr False
      \<and> filter is_request (snd (uploadToGCS e d i dec post)) = []"
    by (simp add: uploadToGCS_skipped)
  have p2: "isConfigured (getGCSConfig e)
        \<and> \<not> (\<exists>bl r. dec = Inr bl \<and> post = Inr r \<and> 200 \<le> status r \<and> status r \<le> 299) \<longrightarrow>
      fst (uploadToGCS e d i dec post) = Inr False"
    using t nt by blast
  have p3: "fst (uploadToGCS e d i dec post) = Inr True \<longrightarrow>
      upload_attempts (snd (uploadToGCS e d i dec post)) = 1
      \<and> (\<exists>r. post = Inr r \<and> 200 \<le> status r \<and> status r \<le> 299)"
    using t by (auto simp: uploadToGCS_attempts)
  show ?thesis using p1 p2 p3 ex by blast
qed

text \<open>A bucket without a token: the upload is skipped, no request, the result is \<^verbatim>\<open>false\<close>.\<close>

theorem uploadToGCS_false_ambiguous_witness:
  "\<not> isConfigured (getGCSConfig \<lparr> GCS_BUCKET_NAME = Some ''b'', GCS_ACCESS_TOKEN = None,
       GCS_CREDENTIALS = None, gcs_bucket_override = None, gcs_token_override = None \<rparr>)
   \<and> fst (uploadToGCS \<lparr> GCS_BUCKET_NAME = Some ''b'', GCS_ACCESS_TOKEN = None,
       GCS_CREDENTIALS = None, gcs_bucket_override = None, gcs_token_override = None \<rparr>
       ''data:image/png;base64,AAAA'' ''17'' (Inr [0, 0, 0])
       (Inr \<lparr> status = 200, text_body = Inr [] \<rparr>)) = Inr False
   \<and> filter is_request (snd (uploadToGCS \<lparr> GCS_BUCKET_NAME = Some ''b'', GCS_ACCESS_TOKEN = None,
       GCS_CREDENTIALS = None, gcs_bucket_override = None, gcs_token_override = None \<rparr>
       ''data:image/png;base64,AAAA'' ''17'' (Inr [0, 0, 0])
       (Inr \<lparr> status = 200, text_body = Inr [] \<rparr>))) = []"
  using uploadToGCS_false_ambiguous [of "\<lparr> GCS_BUCKET_NAME = Some ''b'', GCS_ACCESS_TOKEN = None,
       GCS_CREDENTIALS = None, gcs_bucket_override = None, gcs_token_override = None \<rparr>"
       "''data:image/png;base64,AAAA''" "''17''" "Inr [0, 0, 0]"
       "Inr \<lparr> status = 200, text_body = Inr [] \<rparr>"]
  by (simp add: getGCSConfig_def js_or_def)

section \<open>Properties of the citation list\<close>

lemma Map_set_keys:
  "map fst (Map_set m k v) = (if k \<in> set (map fst m) then map fst m else map fst m @ [k])"
  by (induction m k v rule: Map_set.induct) auto

lemma Map_set_map_of: "map_of (Map_set m k v) = (map_of m)(k \<mapsto> v)"
  by (induction m k v rule: Map_set.induct) auto

lemma Map_set_distinct: "distinct (map fst m) \<Longrightarrow> distinct (map fst (Map_set m k v))"
  by (simp add: Map_set_keys)

lemma foldl_Map_set_distinct:
  "distinct (map fst m) \<Longrightarrow> distinct (map fst (foldl (\<lambda>m (k, v). Map_set m k v) m es))"
  by (induction es arbitrary: m) (auto simp: Map_set_distinct)

lemma foldl_Map_set_map_of:
  "map_of (foldl (\<lambda>m (k, v). Map_set m k v) m es) = map_of m ++ map_of (rev es)"
  by (induction es arbitrary: m) (auto simp: Map_set_map_of)

lemma remdups_rev_known:
  "k \<in> set ks \<Longrightarrow> remdups (xs @ k # rev ks) = remdups (xs @ rev ks)"
  by (induction xs) auto

lemma foldl_Map_set_keys:
  "distinct (map fst m) \<Longrightarrow>
     map fst (foldl (\<lambda>m (k, v). Map_set m k v) m es) = rev (remdups (rev (map fst m @ map fst es)))"
proof (induction es arbitrary: m)
  case Nil
  then show ?case by (simp add: distinct_remdups_id)
next
  case (Cons e es)
  obtain k v where e: "e = (k, v)" by (cases e)
  have d: "distinct (map fst (Map_set m k v))"
    using Cons.prems by (rule Map_set_distinct)
  have "map fst (foldl (\<lambda>m (k, v). Map_set m k v) m (e # es))
      = rev (remdups (rev (map fst (Map_set m k v) @ map fst es)))"
    using Cons.IH [OF d] e by simp
  also have "\<dots> = rev (remdups (rev (map fst m @ map fst (e # es))))"
  proof (cases "k \<in> set (map fst m)")
    case True
    then show ?thesis
      using remdups_rev_known [of k "map fst m" "rev (map fst es)"] e
      by (simp add: Map_set_keys)
  next
    case False
    then show ?thesis using e by (simp add: Map_set_keys)
  qed
  finally show ?case .
qed

lemma new_Map_keys: "map fst (new_Map es) = rev (remdups (rev (map fst es)))"
  using foldl_Map_set_keys [of "[]" es] by (simp add: new_Map_def)

lemma new_Map_distinct: "distinct (map fst (new_Map es))"
  using foldl_Map_set_distinct [of "[]" es] by (simp add: new_Map_def)

lemma new_Map_map_of: "map_of (new_Map es) = map_of (rev es)"
  using foldl_Map_set_map_of [of "[]" es] by (simp add: new_Map_def)

lemma map_of_rev_keyed_None:
  "map_of (rev (map (\<lambda>x. (g x, x)) xs)) k = None \<longleftrightarrow> filter (\<lambda>x. g x = k) xs = []"
  by (auto simp: map_of_eq_None_iff filter_empty_conv image_iff)

lemma map_of_rev_keyed_key:
  "map_of (rev (map (\<lambda>x. (g x, x)) xs)) k = Some r \<Longrightarrow> g r = k"
  by (auto dest!: map_of_SomeD)

lemma map_of_rev_keyed_last:
  "map_of (rev (map (\<lambda>x. (g x, x)) xs)) k = Some r \<Longrightarrow> r = last (filter (\<lambda>x. g x = k) xs)"
proof (induction xs)
  case Nil
  then show ?case by simp
next
  case (Cons a xs)
  show ?case
  proof (cases "map_of (rev (map (\<lambda>x. (g x, x)) xs)) k")
    case None
    then have "filter (\<lambda>x. g x = k) xs = []" by (simp add: map_of_rev_keyed_None)
    then show ?thesis using Cons.prems None by (auto simp: map_add_def split: if_splits)
  next
    case (Some r')
    then have ne: "filter (\<lambda>x. g x = k) xs \<noteq> []"
      using map_of_rev_keyed_None [of g xs k] by simp
    have "r' = r" using Cons.prems Some by (simp add: map_add_def)
    then have "r = last (filter (\<lambda>x. g x = k) xs)" using Cons.IH Some by blast
    also have "\<dots> = last (filter (\<lambda>x. g x = k) (a # xs))" using ne by simp
    finally show ?thesis .
  qed
qed

lemma new_Map_keyed_entry:
  assumes "p \<in> set (new_Map (map (\<lambda>item. (url item, item)) xs))"
  shows "url (snd p) = fst p" and "snd p = last (filter (\<lambda>x. url x = fst p) xs)"
proof -
  have "map_of (new_Map (map (\<lambda>item. (url item, item)) xs)) (fst p) = Some (snd p)"
    using assms new_Map_distinct [of "map (\<lambda>item. (url item, item)) xs"] by simp
  then have m: "map_of (rev (map (\<lambda>item. (url item, item)) xs)) (fst p) = Some (snd p)"
    by (simp add: new_Map_map_of)
  show "url (snd p) = fst p" using m by (rule map_of_rev_keyed_key)
  show "snd p = last (filter (\<lambda>x. url x = fst p) xs)" using m by (rule map_of_rev_keyed_last)
qed

lemma uniqueResults_urls:
  "map url (uniqueResults xs) = rev (remdups (rev (map url xs)))"
proof -
  have k: "map fst (new_Map (map (\<lambda>item. (url item, item)) xs)) = rev (remdups (rev (map url xs)))"
    by (simp add: new_Map_keys comp_def)
  have "map url (uniqueResults xs) = map fst (new_Map (map (\<lambda>item. (url item, item)) xs))"
    by (simp add: uniqueResults_def new_Map_keyed_entry(1))
  then show ?thesis using k by simp
qed

lemma uniqueResults_last:
  assumes "r \<in> set (uniqueResults xs)"
  shows "r = last (filter (\<lambda>x. url x = url r) xs)"
proof -
  from assms obtain p where p: "p \<in> set (new_Map (map (\<lambda>item. (url item, item)) xs))"
    and r: "r = snd p"
    by (auto simp: uniqueResults_def)
  have "url r = fst p" using new_Map_keyed_entry(1) [OF p] r by simp
  then show ?thesis using new_Map_keyed_entry(2) [OF p] r by simp
qed

lemma collect_chunk_of:
  "\<forall>x \<in> set xs. url x \<noteq> [] \<and> title x \<noteq> [] \<Longrightarrow> collect_searchResults (map chunk_of xs) = xs"
  by (induction xs) (simp_all add: collect_searchResults_def chunk_of_def)

text \<open>
  Claim C3, as amended. For every list of grounding chunks, in any order and with any
  repetition of URLs, \<^verbatim>\<open>researchTopicForPrompt\<close> returns exactly one citation entry for each
  distinct URL among the chunks that carry a title and a URL, in the order in which the URLs
  first occur; the entry retained for a URL is its last occurrence, so its title is the title
  of the last occurrence. A list of citation entries with non-empty titles and URLs, given
  as chunks, is collected as it is.
\<close>

theorem researchTopicForPrompt_citations:
  "(\<exists>r. researchTopicForPrompt tpc lvl sty (Inr resp) = Inr r
        \<and> distinct (map url (searchResults r))
        \<and> map url (searchResults r)
            = rev (remdups (rev (map url
                (case groundingChunks resp of None \<Rightarrow> [] | Some chunks \<Rightarrow> collect_searchResults chunks))))
        \<and> set (map url (searchResults r))
            = set (map url
                (case groundingChunks resp of None \<Rightarrow> [] | Some chunks \<Rightarrow> collect_searchResults chunks))
        \<and> (\<forall>c \<in> set (searchResults r).
              c = last (filter (\<lambda>x. url x = url c)
                (case groundingChunks resp of None \<Rightarrow> [] | Some chunks \<Rightarrow> collect_searchResults chunks))))
   \<and> ((\<forall>x \<in> set entries. url x \<noteq> [] \<and> title x \<noteq> []) \<longrightarrow>
         collect_searchResults (map chunk_of entries) = entries)"
proof -
  let ?xs = "case groundingChunks resp of None \<Rightarrow> [] | Some chunks \<Rightarrow> collect_searchResults chunks"
  obtain r where r: "researchTopicForPrompt tpc lvl sty (Inr resp) = Inr r"
    and sr: "searchResults r = uniqueResults ?xs"
    by (simp add: researchTopicForPrompt_def Let_def)
  have u: "map url (searchResults r) = rev (remdups (rev (map url ?xs)))"
    using sr by (simp add: uniqueResults_urls)
  have d: "distinct (map url (searchResults r))"
    using u by simp
  have s: "set (map url (searchResults r)) = set (map url ?xs)"
    using u by simp
  have l: "\<forall>c \<in> set (searchResults r). c = last (filter (\<lambda>x. url x = url c) ?xs)"
    using sr uniqueResults_last [of _ ?xs] by simp
  have c: "(\<forall>x \<in> set entries. url x \<noteq> [] \<and> title x \<noteq> []) \<longrightarrow>
         collect_searchResults (map chunk_of entries) = entries"
    using collect_chunk_of [of entries] by blast
  show ?thesis using r u d s l c by blast
qed

text \<open>Three entries, the first and the third with the same URL: the third one is retained.\<close>

theorem researchTopicForPrompt_citations_witness:
  "map_sum (\<lambda>e. e) searchResults
     (researchTopicForPrompt ''Tides'' ''Expert'' ''Default''
        (Inr \<lparr> response_text = None,
               groundingChunks = Some (map chunk_of
                 [\<lparr> title = ''A'', url = ''u1'' \<rparr>, \<lparr> title = ''B'', url = ''u2'' \<rparr>,
                  \<lparr> title = ''C'', url = ''u1'' \<rparr>]) \<rparr>))
   = Inr [\<lparr> title = ''C'', url = ''u1'' \<rparr>, \<lparr> title = ''B'', url = ''u2'' \<rparr>]"
proof -
  let ?entries = "[\<lparr> title = ''A'', url = ''u1'' \<rparr>, \<lparr> title = ''B'', url = ''u2'' \<rparr>,
                  \<lparr> title = ''C'', url = ''u1'' \<rparr>]"
  let ?resp = "\<lparr> response_text = None, groundingChunks = Some (map chunk_of ?entries) \<rparr>"
  from researchTopicForPrompt_citations [of "''Tides''" "''Expert''" "''Default''" ?resp ?entries]
  obtain r where r: "researchTopicForPrompt ''Tides'' ''Expert'' ''Default'' (Inr ?resp) = Inr r"
    and u: "map url (searchResults r) = rev (remdups (rev (map url
              (collect_searchResults (map chunk_of ?entries)))))"
    and l: "\<forall>c \<in> set (searchResults r).
              c = last (filter (\<lambda>x. url x = url c) (collect_searchResults (map chunk_of ?entries)))"
    and c: "collect_searchResults (map chunk_of ?entries) = ?entries"
    by auto
  have u': "map url (searchResults r) = [''u1'', ''u2'']"
    using u c by simp
  then obtain a b where ab: "searchResults r = [a, b]" and "url a = ''u1''" and "url b = ''u2''"
    by auto
  then have "a = \<lparr> title = ''C'', url = ''u1'' \<rparr>" and "b = \<lparr> title = ''B'', url = ''u2'' \<rparr>"
    using l c by simp_all
  then show ?thesis using r ab by simp
qed

text \<open>
  Claim C3 as stated says that the first occurrence of a URL is retained. \<^verbatim>\<open>new Map\<close> sets the
  entries one after the other, and a later entry replaces the value stored for its key: of
  two entries with the same URL the result has the title of the second.
\<close>

theorem researchTopicForPrompt_first_title_counterexample:
  "map_sum (\<lambda>e. e) searchResults
     (researchTopicForPrompt ''Tides'' ''Expert'' ''Default''
        (Inr \<lparr> response_text = None,
               groundingChunks = Some
                 [\<lparr> web = Some \<lparr> uri = Some ''https://example.org/tides'',
                                 web_title = Some ''First title'' \<rparr> \<rparr>,
                  \<lparr> web = Some \<lparr> uri = Some ''https://example.org/tides'',
                                 web_title = Some ''Second title'' \<rparr> \<rparr>] \<rparr>))
   = Inr [\<lparr> title = ''Second title'', url = ''https://example.org/tides'' \<rparr>]
   \<and> ''Second title'' \<noteq> ''First title''"
  by (simp add: researchTopicForPrompt_def Let_def collect_searchResults_def uniqueResults_def
      new_Map_def)

section \<open>Properties of the application controller\<close>

lemma includes_str_sublist: "includes_str s p \<longleftrightarrow> sublist p s"
  by (induction s) (auto simp: sublist_Cons_right)

lemma access_failure_iff:
  "access_failure err \<longleftrightarrow>
     (\<exists>m. message err = Some m
          \<and> (sublist ''Requested entity was not found'' m \<or> sublist ''404'' m \<or> sublist ''403'' m))"
  by (cases err) (auto simp: access_failure_def includes_str_sublist split: option.splits)

lemma finally_block_fields [simp]:
  "imageHistory (finally_block s) = imageHistory s"
  "activeImageId (finally_block s) = activeImageId s"
  "error (finally_block s) = error s"
  "hasApiKey (finally_block s) = hasApiKey s"
  "isLoading (finally_block s) = False"
  by (simp_all add: finally_block_def)

lemma catch_generate_fields [simp]:
  "imageHistory (catch_generate err s) = imageHistory s"
  "activeImageId (catch_generate err s) = activeImageId s"
  "error (catch_generate err s) =
     Some (if access_failure err
           then ''Access denied. The selected API key does not have access to the required models. Please select a project with billing enabled.''
           else ''The image generation service is temporarily unavailable. Please try again.'')"
  "hasApiKey (catch_generate err s) = (hasApiKey s \<and> \<not> access_failure err)"
  by (simp_all add: catch_generate_def)

lemma catch_edit_fields [simp]:
  "imageHistory (catch_edit err s) = imageHistory s"
  "activeImageId (catch_edit err s) = activeImageId s"
  "error (catch_edit err s) =
     Some (if access_failure err
           then ''Access denied. Please select a valid API key with billing enabled.''
           else ''Modification failed. Try a different command.'')"
  "hasApiKey (catch_edit err s) = (hasApiKey s \<and> \<not> access_failure err)"
  by (simp_all add: catch_edit_def)

lemma handleGenerate_loading: "isLoading s \<Longrightarrow> handleGenerate s r g n1 n2 = (s, [])"
  by (simp add: handleGenerate_def)

lemma handleGenerate_invalid:
  "\<not> isLoading s \<Longrightarrow> trim (topic s) = [] \<Longrightarrow> contextSources s = [] \<Longrightarrow>
     handleGenerate s r g n1 n2 =
       (s\<lparr> error := Some ''Please enter a topic or provide context (File/URL) to visualize.'' \<rparr>, [])"
  by (simp add: handleGenerate_def)

lemma handleGenerate_research_fails:
  assumes "generate_runs s"
  shows "fst (handleGenerate s (Inl err) g n1 n2) =
           finally_block (catch_generate err
             (s\<lparr> isLoading := True, error := None, loadingStep := 1, loadingFacts := [],
                 currentSearchResults := [], loadingMessage := ''Researching...'' \<rparr>))"
  using assms by (auto simp: handleGenerate_def generate_runs_def Let_def)

lemma handleGenerate_image_fails:
  assumes "generate_runs s"
  shows "fst (handleGenerate s (Inr r) (Inl err) n1 n2) =
           finally_block (catch_generate err
             (s\<lparr> isLoading := True, error := None, loadingStep := 1, loadingFacts := [],
                 currentSearchResults := [], loadingMessage := ''Researching...'',
                 loadingFacts := facts r, currentSearchResults := searchResults r,
                 loadingStep := 2, loadingMessage := ''Designing Infographic...'' \<rparr>))"
  using assms by (auto simp: handleGenerate_def generate_runs_def Let_def)

lemma handleGenerate_succeeds:
  assumes "generate_runs s"
  shows "\<exists>img. imageHistory (fst (handleGenerate s (Inr r) (Inr d) n1 n2)) = img # imageHistory s
     \<and> img_data img = d \<and> img_id img = toString_nat n1
     \<and> activeImageId (fst (handleGenerate s (Inr r) (Inr d) n1 n2)) = Some (img_id img)
     \<and> error (fst (handleGenerate s (Inr r) (Inr d) n1 n2)) = None"
  using assms by (auto simp: handleGenerate_def generate_runs_def Let_def)

lemma activeImage_head:
  "imageHistory s = img # h \<Longrightarrow> activeImageId s = Some (img_id img) \<Longrightarrow> activeImage s = Some img"
  by (simp add: activeImage_def)

lemma handleEdit_ignored: "\<not> edit_runs s \<Longrightarrow> handleEdit s p ed n1 n2 = (s, [])"
  by (auto simp: handleEdit_def edit_runs_def)

lemma handleEdit_fails:
  assumes "edit_runs s"
  shows "fst (handleEdit s p (Inl err) n1 n2) =
           finally_block (catch_edit err
             (s\<lparr> isLoading := True, error := None, loadingStep := 2,
                 loadingMessage := ''Processing Modification: '' @ [CHR 0x22] @ p
                                     @ [CHR 0x22] @ ''...'' \<rparr>))"
  using assms by (auto simp: handleEdit_def edit_runs_def Let_def)

lemma handleEdit_succeeds:
  assumes "edit_runs s"
  shows "\<exists>img. imageHistory (fst (handleEdit s p (Inr d) n1 n2)) = img # imageHistory s
     \<and> img_data img = d \<and> img_id img = toString_nat n1
     \<and> activeImageId (fst (handleEdit s p (Inr d) n1 n2)) = Some (img_id img)
     \<and> error (fst (handleEdit s p (Inr d) n1 n2)) = None"
  using assms by (auto simp: handleEdit_def edit_runs_def Let_def)

lemma handleEdit_calls:
  assumes "edit_runs s"
  shows "\<exists>img rest. activeImage s = Some img
     \<and> snd (handleEdit s p ed n1 n2) = CallEditInfographicImage (img_data img) p # rest"
  using assms by (auto simp: handleEdit_def edit_runs_def Let_def split: sum.splits)

lemma toString_nat_nonempty: "toString_nat n \<noteq> []"
  by (subst toString_nat.simps) simp

lemma step_productive:
  assumes pd: "produced s a = Some d"
  shows "\<exists>img. imageHistory (step s a) = img # imageHistory s
          \<and> img_data img = d \<and> activeImageId (step s a) = Some (img_id img)"
proof (cases a)
  case (Generate rs g n1 n2)
  then have runs: "generate_runs s" using pd by (simp split: if_splits)
  obtain rr where "rs = Inr rr" and "g = Inr d"
    using pd Generate runs by (auto split: sum.splits)
  then show ?thesis
    using Generate handleGenerate_succeeds [OF runs, of rr d n1 n2] by auto
next
  case (Edit p ed n1 n2)
  then have runs: "edit_runs s" using pd by (simp split: if_splits)
  have "ed = Inr d" using pd Edit runs by (auto split: sum.splits)
  then show ?thesis using Edit handleEdit_succeeds [OF runs, of p d n1 n2] by auto
qed (use pd in simp_all)

lemma handleGenerate_not_runs:
  "\<not> generate_runs s \<Longrightarrow> imageHistory (fst (handleGenerate s r g n1 n2)) = imageHistory s"
proof (cases "isLoading s")
  case True
  then show ?thesis by (simp add: handleGenerate_loading)
next
  case False
  assume "\<not> generate_runs s"
  then have "trim (topic s) = []" and "contextSources s = []"
    using False by (simp_all add: generate_runs_def)
  then show ?thesis using False by (simp add: handleGenerate_invalid)
qed

lemma step_unproductive:
  assumes pn: "produced s a = None"
  shows "imageHistory (step s a) = imageHistory s"
proof (cases a)
  case (Generate r g n1 n2)
  show ?thesis
  proof (cases "generate_runs s")
    case False
    then show ?thesis using Generate by (simp add: handleGenerate_not_runs)
  next
    case True
    show ?thesis
    proof (cases r)
      case (Inl err)
      then show ?thesis using True Generate by (simp add: handleGenerate_research_fails)
    next
      case (Inr rr)
      then obtain err where "g = Inl err"
        using pn Generate True by (cases g) simp_all
      then show ?thesis using True Generate Inr by (simp add: handleGenerate_image_fails)
    qed
  qed
next
  case (Edit p ed n1 n2)
  show ?thesis
  proof (cases "edit_runs s")
    case False
    then show ?thesis using Edit by (simp add: handleEdit_ignored)
  next
    case True
    then obtain err where "ed = Inl err"
      using pn Edit by (cases ed) simp_all
    then show ?thesis using True Edit by (simp add: handleEdit_fails)
  qed
qed (simp_all add: handleNewSession_def)

lemma step_history_data:
  "map img_data (imageHistory (step s a)) =
     (case produced s a of None \<Rightarrow> [] | Some d \<Rightarrow> [d]) @ map img_data (imageHistory s)"
proof (cases "produced s a")
  case None
  then show ?thesis by (simp add: step_unproductive)
next
  case (Some d)
  then obtain img where "imageHistory (step s a) = img # imageHistory s" and "img_data img = d"
    using step_productive [of s a d] by blast
  then show ?thesis using Some by simp
qed

lemma run_history_data:
  "map img_data (imageHistory (run s acts)) = produced_by s acts @ map img_data (imageHistory s)"
proof (induction acts arbitrary: s)
  case Nil
  then show ?case by (simp add: run_def)
next
  case (Cons a acts)
  have "map img_data (imageHistory (run s (a # acts)))
      = map img_data (imageHistory (run (step s a) acts))"
    by (simp add: run_def)
  also have "\<dots> = produced_by (step s a) acts @ map img_data (imageHistory (step s a))"
    by (rule Cons.IH)
  finally show ?case by (simp add: step_history_data)
qed

text \<open>
  Claim C1. A cycle of \<^verbatim>\<open>handleGenerate\<close> or \<^verbatim>\<open>handleEdit\<close> that succeeds (\<open>produced\<close> gives
  the payload of its image) puts exactly one new entry with that payload in front of the
  history and makes it the active image; every other action leaves the history as it is.
  When the research step or the image step of a cycle that got past its guards fails, the
  history is unchanged and an error message is set. So in a run that starts from an empty
  history, the payloads of the history are the payloads produced by the successful cycles,
  the most recent first, and the length of the history is the number of successful cycles.
  A handler is taken as one step, from its trigger to the end of its \<^verbatim>\<open>finally\<close> block.
\<close>

theorem cycle_history:
  "(\<forall>d. produced s a = Some d \<longrightarrow>
      (\<exists>img. imageHistory (step s a) = img # imageHistory s
          \<and> img_data img = d
          \<and> activeImageId (step s a) = Some (img_id img)
          \<and> activeImage (step s a) = Some img))
   \<and> (produced s a = None \<longrightarrow> imageHistory (step s a) = imageHistory s)
   \<and> (generate_runs s \<longrightarrow>
        imageHistory (fst (handleGenerate s (Inl err) generated now_id now_ts)) = imageHistory s
        \<and> error (fst (handleGenerate s (Inl err) generated now_id now_ts)) \<noteq> None
        \<and> imageHistory (fst (handleGenerate s (Inr r) (Inl err) now_id now_ts)) = imageHistory s
        \<and> error (fst (handleGenerate s (Inr r) (Inl err) now_id now_ts)) \<noteq> None)
   \<and> (edit_runs s \<longrightarrow>
        imageHistory (fst (handleEdit s editPrompt (Inl err) now_id now_ts)) = imageHistory s
        \<and> error (fst (handleEdit s editPrompt (Inl err) now_id now_ts)) \<noteq> None)
   \<and> (imageHistory s = [] \<longrightarrow>
        map img_data (imageHistory (run s acts)) = produced_by s acts
        \<and> length (imageHistory (run s acts)) = length (produced_by s acts))"
proof -
  have p1: "\<forall>d. produced s a = Some d \<longrightarrow>
      (\<exists>img. imageHistory (step s a) = img # imageHistory s
          \<and> img_data img = d
          \<and> activeImageId (step s a) = Some (img_id img)
          \<and> activeImage (step s a) = Some img)"
  proof (intro allI impI)
    fix d assume pd: "produced s a = Some d"
    then obtain img where h: "imageHistory (step s a) = img # imageHistory s"
      and d: "img_data img = d" and i: "activeImageId (step s a) = Some (img_id img)"
      using step_productive [of s a d] by blast
    have "activeImage (step s a) = Some img" using h i by (rule activeImage_head)
    then show "\<exists>img. imageHistory (step s a) = img # imageHistory s
          \<and> img_data img = d
          \<and> activeImageId (step s a) = Some (img_id img)
          \<and> activeImage (step s a) = Some img"
      using h d i by blast
  qed
  have p2: "produced s a = None \<longrightarrow> imageHistory (step s a) = imageHistory s"
    by (simp add: step_unproductive)
  have p3: "generate_runs s \<longrightarrow>
        imageHistory (fst (handleGenerate s (Inl err) generated now_id now_ts)) = imageHistory s
        \<and> error (fst (handleGenerate s (Inl err) generated now_id now_ts)) \<noteq> None
        \<and> imageHistory (fst (handleGenerate s (Inr r) (Inl err) now_id now_ts)) = imageHistory s
        \<and> error (fst (handleGenerate s (Inr r) (Inl err) now_id now_ts)) \<noteq> None"
    by (simp add: handleGenerate_research_fails handleGenerate_image_fails)
  have p4: "edit_runs s \<longrightarrow>
        imageHistory (fst (handleEdit s editPrompt (Inl err) now_id now_ts)) = imageHistory s
        \<and> error (fst (handleEdit s editPrompt (Inl err) now_id now_ts)) \<noteq> None"
    by (simp add: handleEdit_fails)
  have p5: "imageHistory s = [] \<longrightarrow>
        map img_data (imageHistory (run s acts)) = produced_by s acts
        \<and> length (imageHistory (run s acts)) = length (produced_by s acts)"
  proof
    assume e: "imageHistory s = []"
    have m: "map img_data (imageHistory (run s acts)) = produced_by s acts"
      using run_history_data [of s acts] e by simp
    have "length (imageHistory (run s acts)) = length (produced_by s acts)"
      using m by (metis length_map)
    then show "map img_data (imageHistory (run s acts)) = produced_by s acts
        \<and> length (imageHistory (run s acts)) = length (produced_by s acts)"
      using m by blast
  qed
  show ?thesis using p1 p2 p3 p4 p5 by blast
qed

lemma trim_Tides: "trim ''Tides'' = ''Tides''"
  by (simp add: trim_def trimStart_def trimEnd_def is_space_def)

lemma ready_state_runs: "generate_runs ready_state"
  by (simp add: generate_runs_def ready_state_def initial_state_def trim_Tides)

lemma ready_state_history: "imageHistory ready_state = []"
  by (simp add: ready_state_def initial_state_def)

text \<open>
  A generation that succeeds, one whose research fails and an edit that succeeds: two
  entries, the edited image first.
\<close>

theorem cycle_history_witness:
  "imageHistory ready_state = []
   \<and> map img_data (imageHistory (run ready_state
        [Generate (Inr \<lparr> imagePrompt = ''draw the tides'', facts = [''Fact A''], searchResults = [] \<rparr>)
           (Inr ''data:image/png;base64,AAAA'') 5 5,
         Generate (Inl (JsError (Some ''503''))) (Inr ''data:image/png;base64,XXXX'') 6 6,
         Edit ''make it blue'' (Inr ''data:image/png;base64,BBBB'') 7 7]))
     = [''data:image/png;base64,BBBB'', ''data:image/png;base64,AAAA'']
   \<and> length (imageHistory (run ready_state
        [Generate (Inr \<lparr> imagePrompt = ''draw the tides'', facts = [''Fact A''], searchResults = [] \<rparr>)
           (Inr ''data:image/png;base64,AAAA'') 5 5,
         Generate (Inl (JsError (Some ''503''))) (Inr ''data:image/png;base64,XXXX'') 6 6,
         Edit ''make it blue'' (Inr ''data:image/png;base64,BBBB'') 7 7])) = 2"
proof -
  let ?rr = "\<lparr> imagePrompt = ''draw the tides'', facts = [''Fact A''], searchResults = [] \<rparr>"
  let ?a1 = "Generate (Inr ?rr) (Inr ''data:image/png;base64,AAAA'') 5 5"
  let ?a2 = "Generate (Inl (JsError (Some ''503''))) (Inr ''data:image/png;base64,XXXX'') 6 6"
  let ?a3 = "Edit ''make it blue'' (Inr ''data:image/png;base64,BBBB'') 7 7"
  let ?s1 = "step ready_state ?a1"
  let ?s2 = "step ?s1 ?a2"
  have t: "trim (topic ready_state) = ''Tides''"
    by (simp add: ready_state_def initial_state_def trim_Tides)
  have s1: "?s1 = ready_state
      \<lparr> isLoading := False, error := None, loadingStep := 0, loadingFacts := [''Fact A''],
        currentSearchResults := [], loadingMessage := ''Designing Infographic...'',
        imageHistory := [\<lparr> img_id = toString_nat 5, img_data = ''data:image/png;base64,AAAA'',
          img_prompt = ''Tides'', img_timestamp = 5, img_level = ''Expert'',
          img_style = ''Default'', img_language = ''English'', img_aspectRatio = ''16:9'',
          img_resolution = ''1K'' \<rparr>],
        activeImageId := Some (toString_nat 5), isSyncing := True \<rparr>"
    using t by (simp add: handleGenerate_def Let_def finally_block_def effectiveTopic_of_def
        ready_state_def initial_state_def)
  have p1: "produced ready_state ?a1 = Some ''data:image/png;base64,AAAA''"
    using ready_state_runs by simp
  have r1: "generate_runs ?s1"
    unfolding s1 using t by (simp add: generate_runs_def ready_state_def initial_state_def)
  have p2: "produced ?s1 ?a2 = None"
    using r1 by simp
  have s2: "imageHistory ?s2 = imageHistory ?s1 \<and> activeImageId ?s2 = activeImageId ?s1"
    using handleGenerate_research_fails [OF r1, of "JsError (Some ''503'')"
        "Inr ''data:image/png;base64,XXXX''" 6 6]
    by simp
  have e2: "edit_runs ?s2"
    using s2 unfolding edit_runs_def activeImage_def s1
    by (simp add: toString_nat_nonempty)
  have p3: "produced ?s2 ?a3 = Some ''data:image/png;base64,BBBB''"
    using e2 by simp
  have pb: "produced_by ready_state [?a1, ?a2, ?a3]
      = [''data:image/png;base64,BBBB'', ''data:image/png;base64,AAAA'']"
    using p1 p2 p3 by simp
  have "imageHistory ready_state = [] \<longrightarrow>
        map img_data (imageHistory (run ready_state [?a1, ?a2, ?a3]))
          = produced_by ready_state [?a1, ?a2, ?a3]
        \<and> length (imageHistory (run ready_state [?a1, ?a2, ?a3]))
          = length (produced_by ready_state [?a1, ?a2, ?a3])"
    using cycle_history [of ready_state ?a1 "JsError None" "Inl (JsError None)" 0 0 ?rr "[]"
        "[?a1, ?a2, ?a3]"]
    by blast
  then have "map img_data (imageHistory (run ready_state [?a1, ?a2, ?a3]))
          = produced_by ready_state [?a1, ?a2, ?a3]
        \<and> length (imageHistory (run ready_state [?a1, ?a2, ?a3]))
          = length (produced_by ready_state [?a1, ?a2, ?a3])"
    using ready_state_history by blast
  then show ?thesis
    unfolding pb using ready_state_history by simp
qed

lemma toString_nat_7: "toString_nat 7 = ''7''"
  by (simp add: toString_nat.simps [of 7] digit_char_def)

text \<open>
  Claim C5, as amended. In every state in which no cycle is loading, the topic is empty or
  white space only and there is no context source, \<^verbatim>\<open>handleGenerate\<close> makes no service call
  and changes nothing but the error message, which it sets to the validation message: the
  loading flag stays false and the history is unchanged.
\<close>

theorem handleGenerate_rejects_empty_input:
  "\<not> isLoading s \<and> trim (topic s) = [] \<and> contextSources s = [] \<longrightarrow>
     handleGenerate s research generated now_id now_ts =
       (s\<lparr> error := Some ''Please enter a topic or provide context (File/URL) to visualize.'' \<rparr>, [])
     \<and> snd (handleGenerate s research generated now_id now_ts) = []
     \<and> error (fst (handleGenerate s research generated now_id now_ts)) \<noteq> None
     \<and> isLoading (fst (handleGenerate s research generated now_id now_ts)) = False
     \<and> imageHistory (fst (handleGenerate s research generated now_id now_ts)) = imageHistory s"
  by (simp add: handleGenerate_invalid)

text \<open>A topic of two spaces and no context source.\<close>

theorem handleGenerate_rejects_empty_input_witness:
  "\<not> isLoading (ready_state\<lparr> topic := ''  '' \<rparr>)
   \<and> trim (topic (ready_state\<lparr> topic := ''  '' \<rparr>)) = []
   \<and> contextSources (ready_state\<lparr> topic := ''  '' \<rparr>) = []
   \<and> handleGenerate (ready_state\<lparr> topic := ''  '' \<rparr>)
        (Inr \<lparr> imagePrompt = ''p'', facts = [], searchResults = [] \<rparr>)
        (Inr ''data:image/png;base64,AAAA'') 5 5
      = (ready_state\<lparr> topic := ''  '',
           error := Some ''Please enter a topic or provide context (File/URL) to visualize.'' \<rparr>, [])"
proof -
  have h: "\<not> isLoading (ready_state\<lparr> topic := ''  '' \<rparr>)
     \<and> trim (topic (ready_state\<lparr> topic := ''  '' \<rparr>)) = []
     \<and> contextSources (ready_state\<lparr> topic := ''  '' \<rparr>) = []"
    by (simp add: ready_state_def initial_state_def trim_def trimStart_def trimEnd_def is_space_def)
  show ?thesis
    using h handleGenerate_rejects_empty_input [of "ready_state\<lparr> topic := ''  '' \<rparr>"
      "Inr \<lparr> imagePrompt = ''p'', facts = [], searchResults = [] \<rparr>"
      "Inr ''data:image/png;base64,AAAA''" 5 5]
    by blast
qed

text \<open>
  Claim C5 as stated speaks of every state with an empty topic and no context source. The
  check of the loading flag comes first: while a cycle is in flight, the handler returns
  without setting the validation message, and the loading flag is true, not false.
\<close>

theorem handleGenerate_loading_counterexample:
  "trim (topic (loading_state\<lparr> topic := [] \<rparr>)) = []
   \<and> contextSources (loading_state\<lparr> topic := [] \<rparr>) = []
   \<and> handleGenerate (loading_state\<lparr> topic := [] \<rparr>)
        (Inr \<lparr> imagePrompt = ''p'', facts = [], searchResults = [] \<rparr>)
        (Inr ''data:image/png;base64,BBBB'') 7 7
      = (loading_state\<lparr> topic := [] \<rparr>, [])
   \<and> error (loading_state\<lparr> topic := [] \<rparr>) = None
   \<and> isLoading (loading_state\<lparr> topic := [] \<rparr>) = True"
  by (simp add: handleGenerate_def loading_state_def ready_state_def initial_state_def
      trim_def trimStart_def trimEnd_def)

text \<open>
  Claim C8, as amended. An error caught in a generation or edit cycle is an access failure
  exactly when it has a message that contains \<^verbatim>\<open>Requested entity was not found\<close>, \<^verbatim>\<open>404\<close> or
  \<^verbatim>\<open>403\<close>. For an access failure the handler sets its access-denied message and sets the
  flag \<open>hasApiKey\<close> to false; for every other error it sets its generic message (service
  unavailable for a generation, modification failed for an edit) and leaves the flag as it
  was.
\<close>

theorem error_classification:
  "(access_failure err \<longleftrightarrow>
      (\<exists>m. message err = Some m
           \<and> (sublist ''Requested entity was not found'' m \<or> sublist ''404'' m
               \<or> sublist ''403'' m)))
   \<and> (generate_runs s \<longrightarrow>
        error (fst (handleGenerate s (Inl err) generated now_id now_ts))
          = Some (if access_failure err
                  then ''Access denied. The selected API key does not have access to the required models. Please select a project with billing enabled.''
                  else ''The image generation service is temporarily unavailable. Please try again.'')
        \<and> hasApiKey (fst (handleGenerate s (Inl err) generated now_id now_ts))
          = (hasApiKey s \<and> \<not> access_failure err)
        \<and> error (fst (handleGenerate s (Inr r) (Inl err) now_id now_ts))
          = Some (if access_failure err
                  then ''Access denied. The selected API key does not have access to the required models. Please select a project with billing enabled.''
                  else ''The image generation service is temporarily unavailable. Please try again.'')
        \<and> hasApiKey (fst (handleGenerate s (Inr r) (Inl err) now_id now_ts))
          = (hasApiKey s \<and> \<not> access_failure err))
   \<and> (edit_runs s \<longrightarrow>
        error (fst (handleEdit s editPrompt (Inl err) now_id now_ts))
          = Some (if access_failure err
                  then ''Access denied. Please select a valid API key with billing enabled.''
                  else ''Modification failed. Try a different command.'')
        \<and> hasApiKey (fst (handleEdit s editPrompt (Inl err) now_id now_ts))
          = (hasApiKey s \<and> \<not> access_failure err))"
proof -
  have g: "generate_runs s \<longrightarrow>
        error (fst (handleGenerate s (Inl err) generated now_id now_ts))
          = Some (if access_failure err
                  then ''Access denied. The selected API key does not have access to the required models. Please select a project with billing enabled.''
                  else ''The image generation service is temporarily unavailable. Please try again.'')
        \<and> hasApiKey (fst (handleGenerate s (Inl err) generated now_id now_ts))
          = (hasApiKey s \<and> \<not> access_failure err)
        \<and> error (fst (handleGenerate s (Inr r) (Inl err) now_id now_ts))
          = Some (if access_failure err
                  then ''Access denied. The selected API key does not have access to the required models. Please select a project with billing enabled.''
                  else ''The image generation service is temporarily unavailable. Please try again.'')
        \<and> hasApiKey (fst (handleGenerate s (Inr r) (Inl err) now_id now_ts))
          = (hasApiKey s \<and> \<not> access_failure err)"
    by (simp add: handleGenerate_research_fails handleGenerate_image_fails)
  have e: "edit_runs s \<longrightarrow>
        error (fst (handleEdit s editPrompt (Inl err) now_id now_ts))
          = Some (if access_failure err
                  then ''Access denied. Please select a valid API key with billing enabled.''
                  else ''Modification failed. Try a different command.'')
        \<and> hasApiKey (fst (handleEdit s editPrompt (Inl err) now_id now_ts))
          = (hasApiKey s \<and> \<not> access_failure err)"
    by (simp add: handleEdit_fails)
  show ?thesis using access_failure_iff [of err] g e by blast
qed

lemma access_failure_403: "access_failure (JsError (Some ''403 Forbidden''))"
  by (simp add: access_failure_def)

text \<open>A research step rejected with a message that contains \<^verbatim>\<open>403\<close>.\<close>

theorem error_classification_witness:
  "generate_runs ready_state
   \<and> error (fst (handleGenerate ready_state (Inl (JsError (Some ''403 Forbidden'')))
                  (Inr ''data:image/png;base64,AAAA'') 5 5))
       = Some ''Access denied. The selected API key does not have access to the required models. Please select a project with billing enabled.''
   \<and> hasApiKey ready_state
   \<and> hasApiKey (fst (handleGenerate ready_state (Inl (JsError (Some ''403 Forbidden'')))
                  (Inr ''data:image/png;base64,AAAA'') 5 5)) = False"
proof -
  have h: "hasApiKey ready_state" by (simp add: ready_state_def initial_state_def)
  have "error (fst (handleGenerate ready_state (Inl (JsError (Some ''403 Forbidden'')))
                  (Inr ''data:image/png;base64,AAAA'') 5 5))
       = Some ''Access denied. The selected API key does not have access to the required models. Please select a project with billing enabled.''
     \<and> hasApiKey (fst (handleGenerate ready_state (Inl (JsError (Some ''403 Forbidden'')))
                  (Inr ''data:image/png;base64,AAAA'') 5 5)) = False"
    using error_classification [of "JsError (Some ''403 Forbidden'')" ready_state
        "Inr ''data:image/png;base64,AAAA''" 5 5
        "\<lparr> imagePrompt = [], facts = [], searchResults = [] \<rparr>" "[]"]
      ready_state_runs access_failure_403
    by simp
  then show ?thesis using h ready_state_runs by blast
qed

text \<open>
  Claim C8 as stated counts a 401 among the access failures. The handlers look for \<^verbatim>\<open>404\<close>,
  \<^verbatim>\<open>403\<close> and the phrase only: an error whose message contains \<^verbatim>\<open>401\<close> gets the generic
  message, and the flag \<open>hasApiKey\<close> stays true.
\<close>

theorem error_401_counterexample:
  "includes_str ''401 Unauthorized'' ''401''
   \<and> generate_runs ready_state
   \<and> error (fst (handleGenerate ready_state (Inl (JsError (Some ''401 Unauthorized'')))
                  (Inr ''data:image/png;base64,AAAA'') 5 5))
       = Some ''The image generation service is temporarily unavailable. Please try again.''
   \<and> hasApiKey ready_state
   \<and> hasApiKey (fst (handleGenerate ready_state (Inl (JsError (Some ''401 Unauthorized'')))
                  (Inr ''data:image/png;base64,AAAA'') 5 5))"
proof -
  have n: "\<not> access_failure (JsError (Some ''401 Unauthorized''))"
    by (simp add: access_failure_def)
  have h: "hasApiKey ready_state" by (simp add: ready_state_def initial_state_def)
  have i: "includes_str ''401 Unauthorized'' ''401''" by simp
  show ?thesis
    using n h i ready_state_runs
    by (simp add: handleGenerate_research_fails)
qed







section \<open>Properties of the response parser\<close>

lemma ci_prefix_iff:
  "ci_prefix p s \<longleftrightarrow>
     length p \<le> length s \<and> map to_upper (take (length p) s) = map to_upper p"
  by (induction p s rule: ci_prefix.induct) auto

lemma ci_occurs_iff: "ci_occurs p s \<longleftrightarrow> (\<exists>i. ci_prefix p (drop i s))"
proof
  assume "ci_occurs p s"
  then obtain pre hdr post where s: "s = pre @ hdr @ post"
    and h: "map to_upper hdr = map to_upper p"
    by (auto simp: ci_occurs_def)
  have l: "length hdr = length p" using h by (metis length_map)
  have "ci_prefix p (drop (length pre) s)"
    using s h l by (simp add: ci_prefix_iff)
  then show "\<exists>i. ci_prefix p (drop i s)" ..
next
  assume "\<exists>i. ci_prefix p (drop i s)"
  then obtain i where i: "ci_prefix p (drop i s)" ..
  have "s = take i s @ take (length p) (drop i s) @ drop (length p) (drop i s)"
    by (metis append_take_drop_id)
  moreover have "map to_upper (take (length p) (drop i s)) = map to_upper p"
    using i by (simp add: ci_prefix_iff)
  ultimately show "ci_occurs p s" unfolding ci_occurs_def by blast
qed

lemma ci_occurs_Cons: "ci_occurs p s \<Longrightarrow> ci_occurs p (a # s)"
proof -
  assume "ci_occurs p s"
  then obtain i where "ci_prefix p (drop i s)" by (auto simp: ci_occurs_iff)
  then have "ci_prefix p (drop (Suc i) (a # s))" by simp
  then show ?thesis unfolding ci_occurs_iff by blast
qed

lemma ci_prefix_occurs_early:
  assumes "ci_prefix p (a # xs @ t)"
  shows "ci_occurs p ((a # xs) @ take (length p - 1) t)"
proof -
  have len: "length p \<le> Suc (length xs + length t)"
    and eq: "map to_upper (take (length p) (a # xs @ t)) = map to_upper p"
    using assms by (simp_all add: ci_prefix_iff)
  have "take (length p) ((a # xs) @ take (length p - 1) t) = take (length p) (a # xs @ t)"
    by (cases "length p") (simp_all add: min_def)
  moreover have "length p \<le> length ((a # xs) @ take (length p - 1) t)"
    using len by (cases "length p") (auto simp: min_def)
  ultimately have "ci_prefix p (drop 0 ((a # xs) @ take (length p - 1) t))"
    using eq by (simp add: ci_prefix_iff)
  then show ?thesis unfolding ci_occurs_iff by blast
qed

lemma search_ci_first:
  assumes "ci_prefix p t" and "\<not> ci_occurs p (pre @ take (length p - 1) t)"
  shows "search_ci p (pre @ t) = Some (drop (length p) t)"
  using assms
proof (induction pre)
  case Nil
  then show ?case by (cases t) (auto simp: ci_prefix_iff)
next
  case (Cons a pre)
  have "\<not> ci_prefix p (a # pre @ t)"
    using Cons.prems(2) ci_prefix_occurs_early [of p a pre t] by blast
  moreover have "\<not> ci_occurs p (pre @ take (length p - 1) t)"
    using Cons.prems(2) ci_occurs_Cons [of p "pre @ take (length p - 1) t" a] by auto
  ultimately show ?case using Cons by simp
qed

lemma search_ci_None: "search_ci p s = None \<longleftrightarrow> \<not> ci_occurs p s"
proof (induction s)
  case Nil
  show ?case by (auto simp: ci_occurs_def)
next
  case (Cons a s)
  have "ci_occurs p (a # s) \<longleftrightarrow> ci_prefix p (a # s) \<or> ci_occurs p s"
  proof
    assume "ci_occurs p (a # s)"
    then obtain i where i: "ci_prefix p (drop i (a # s))" by (auto simp: ci_occurs_iff)
    show "ci_prefix p (a # s) \<or> ci_occurs p s"
    proof (cases i)
      case 0
      then show ?thesis using i by simp
    next
      case (Suc j)
      then have "ci_prefix p (drop j s)" using i by simp
      then show ?thesis unfolding ci_occurs_iff by blast
    qed
  next
    assume "ci_prefix p (a # s) \<or> ci_occurs p s"
    then show "ci_occurs p (a # s)"
    proof
      assume "ci_prefix p (a # s)"
      then have "ci_prefix p (drop 0 (a # s))" by simp
      then show ?thesis unfolding ci_occurs_iff by blast
    qed (rule ci_occurs_Cons)
  qed
  then show ?case using Cons by simp
qed

lemma lazy_until_stop:
  assumes "t = [] \<or> ci_prefix p t" and "\<not> ci_occurs p (xs @ take (length p - 1) t)"
  shows "lazy_until p (xs @ t) = xs"
  using assms
proof (induction xs)
  case Nil
  then show ?case by (cases t) auto
next
  case (Cons a xs)
  have "\<not> ci_prefix p (a # xs @ t)"
    using Cons.prems(2) ci_prefix_occurs_early [of p a xs t] by blast
  moreover have "\<not> ci_occurs p (xs @ take (length p - 1) t)"
    using Cons.prems(2) ci_occurs_Cons [of p "xs @ take (length p - 1) t" a] by auto
  ultimately show ?case using Cons by simp
qed

lemma dropWhile_stop: "\<not> P a \<Longrightarrow> dropWhile P (xs @ a # ys) = dropWhile P xs @ a # ys"
  by (induction xs) auto

lemma dropWhile_all: "\<forall>x \<in> set xs. P x \<Longrightarrow> dropWhile P (xs @ ys) = dropWhile P ys"
  by (induction xs) auto

lemma trimEnd_keep: "\<not> is_space a \<Longrightarrow> trimEnd (xs @ a # c) = xs @ a # trimEnd c"
  by (simp add: trimEnd_def dropWhile_stop)

lemma trimEnd_spaces: "\<forall>c \<in> set w. is_space c \<Longrightarrow> trimEnd (y @ w) = trimEnd y"
  by (simp add: trimEnd_def dropWhile_all)

lemma trimEnd_idem: "trimEnd (trimEnd c) = trimEnd c"
  by (simp add: trimEnd_def)

lemma trimEnd_all_space: "\<forall>x \<in> set c. is_space x \<Longrightarrow> trimEnd c = []"
  using dropWhile_all [of "rev c" is_space "[]"] by (simp add: trimEnd_def)

lemma trimStart_trimEnd: "trimStart (trimEnd c) = trimEnd (trimStart c)"
proof (cases "\<forall>x \<in> set c. is_space x")
  case True
  have e: "trimEnd c = []" using True by (simp add: trimEnd_all_space)
  have s: "trimStart c = []" using True by (simp add: trimStart_def)
  show ?thesis unfolding e s by (simp add: trimStart_def trimEnd_def)
next
  case False
  then have ne: "dropWhile is_space c \<noteq> []"
    by (simp add: dropWhile_eq_Nil_conv)
  then obtain a r where d: "dropWhile is_space c = a # r"
    by (cases "dropWhile is_space c") auto
  have a: "\<not> is_space a"
    using hd_dropWhile [OF ne] d by simp
  have c: "c = takeWhile is_space c @ a # r"
    using d by (metis takeWhile_dropWhile_id)
  have "trimEnd c = takeWhile is_space c @ a # trimEnd r"
    using trimEnd_keep [OF a, of "takeWhile is_space c" r] c by simp
  then have "trimStart (trimEnd c) = dropWhile is_space (takeWhile is_space c @ a # trimEnd r)"
    by (simp add: trimStart_def)
  also have "\<dots> = a # trimEnd r"
  proof -
    have "\<forall>x \<in> set (takeWhile is_space c). is_space x"
      by (auto dest: set_takeWhileD)
    then show ?thesis
      using a dropWhile_all [of "takeWhile is_space c" is_space "a # trimEnd r"] by simp
  qed
  also have "\<dots> = trimEnd (trimStart c)"
    using trimEnd_keep [OF a, of "[]" r] d by (simp add: trimStart_def)
  finally show ?thesis .
qed

lemma trim_trimEnd: "trim (trimEnd c) = trim c"
  by (simp add: trim_def trimStart_trimEnd trimEnd_idem)

lemma trim_trimStart: "trim (dropWhile is_space c) = trim c"
  by (simp add: trim_def trimStart_def)

lemma set_trimEnd: "set (trimEnd c) \<subseteq> set c"
  by (auto simp: trimEnd_def dest: set_dropWhileD)

lemma trim_strip_dash_bullet: "trim (strip_dash (bullet c)) = trim c"
  by (simp add: bullet_def trim_trimStart)

lemma split_nl_line:
  "CHR ''\<newline>'' \<notin> set l \<Longrightarrow> split_nl l = [l]"
  by (induction l) auto

lemma split_nl_append:
  "CHR ''\<newline>'' \<notin> set l \<Longrightarrow> split_nl (l @ CHR ''\<newline>'' # r) = l # split_nl r"
  by (induction l) auto

lemma split_nl_join:
  "ls \<noteq> [] \<Longrightarrow> \<forall>l \<in> set ls. CHR ''\<newline>'' \<notin> set l \<Longrightarrow>
     split_nl (join ''\<newline>'' ls) = ls"
proof (induction "''\<newline>''" ls rule: join.induct)
  case 1
  then show ?case by simp
next
  case (2 x)
  then show ?case by (simp add: split_nl_line)
next
  case (3 x y ys)
  then show ?case by (simp add: split_nl_append)
qed

lemma join_snoc: "ls \<noteq> [] \<Longrightarrow> join sep (ls @ [x]) = join sep ls @ sep @ x"
  by (induction sep ls rule: join.induct) auto

lemma to_upper_FACTS: "map to_upper ''FACTS:'' = ''FACTS:''"
  by code_simp

lemma to_upper_PROMPT: "map to_upper ''IMAGE_PROMPT:'' = ''IMAGE_PROMPT:''"
  by code_simp

lemma ci_prefix_header:
  assumes "map to_upper h = map to_upper p"
  shows "ci_prefix p (h @ r)"
proof -
  have "length (map to_upper h) = length (map to_upper p)" using assms by simp
  then have "length h = length p" by simp
  then show ?thesis using assms by (simp add: ci_prefix_iff)
qed

lemma section_after_header:
  assumes hdr: "map to_upper hdr = map to_upper p"
    and first: "\<not> ci_occurs p (pre @ butlast hdr)"
    and sp: "\<forall>c \<in> set sp. is_space c"
    and x: "\<not> is_space x"
    and tail: "tail = [] \<or> ci_prefix q tail"
    and none: "\<not> ci_occurs q ((x # xs) @ take (length q - 1) tail)"
  shows "map_option (\<lambda>rest. lazy_until q (dropWhile is_space rest))
           (search_ci p (pre @ hdr @ sp @ (x # xs) @ tail)) = Some (x # xs)"
proof -
  let ?rest = "sp @ (x # xs) @ tail"
  have "length (map to_upper hdr) = length (map to_upper p)" using hdr by simp
  then have len: "length hdr = length p" by simp
  have p: "ci_prefix p (hdr @ ?rest)"
    using hdr by (rule ci_prefix_header)
  have "take (length p - 1) (hdr @ ?rest) = butlast hdr"
    using len by (simp add: butlast_conv_take)
  then have "\<not> ci_occurs p (pre @ take (length p - 1) (hdr @ ?rest))"
    using first by simp
  then have "search_ci p (pre @ hdr @ ?rest) = Some (drop (length p) (hdr @ ?rest))"
    using p by (rule search_ci_first [rotated])
  then have s: "search_ci p (pre @ hdr @ ?rest) = Some ?rest"
    using len by simp
  have w: "dropWhile is_space ?rest = (x # xs) @ tail"
    using sp x dropWhile_all [of sp is_space "(x # xs) @ tail"] by simp
  have l: "lazy_until q ((x # xs) @ tail) = x # xs"
    using tail none by (rule lazy_until_stop)
  show ?thesis
    by (simp only: s w l option.map)
qed

lemma dash_not_space: "\<not> is_space (CHR ''-'')"
  by (simp add: is_space_def)

lemma join_bullets_Cons:
  "\<exists>r. join sep (map bullet (c # cs)) = CHR ''-'' # r"
  by (cases cs) (simp_all add: bullet_def)

lemma join_bullets_snoc:
  "\<exists>A. join sep (map bullet (cs @ [c])) = A @ bullet c
       \<and> (\<forall>d. join sep (map bullet (cs @ [d])) = A @ bullet d)"
proof (cases "cs = []")
  case True
  then have "join sep (map bullet (cs @ [c])) = [] @ bullet c
       \<and> (\<forall>d. join sep (map bullet (cs @ [d])) = [] @ bullet d)"
    by simp
  then show ?thesis by blast
next
  case False
  then have "map bullet cs \<noteq> []" by simp
  then have "\<forall>d. join sep (map bullet cs @ [bullet d]) = join sep (map bullet cs) @ sep @ bullet d"
    by (simp add: join_snoc)
  then have "join sep (map bullet (cs @ [c])) = (join sep (map bullet cs) @ sep) @ bullet c
       \<and> (\<forall>d. join sep (map bullet (cs @ [d])) = (join sep (map bullet cs) @ sep) @ bullet d)"
    by simp
  then show ?thesis by blast
qed

lemma trim_bullets:
  assumes ws: "\<forall>c \<in> set ws. is_space c"
  shows "trim (join sep (map bullet (cs @ [c])) @ ws)
           = join sep (map bullet (cs @ [trimEnd c]))"
proof -
  obtain A where A: "join sep (map bullet (cs @ [c])) = A @ bullet c"
    and A': "join sep (map bullet (cs @ [trimEnd c])) = A @ bullet (trimEnd c)"
    using join_bullets_snoc [of sep cs c] by blast
  obtain r where "join sep (map bullet (cs @ [c])) = CHR ''-'' # r"
    using join_bullets_Cons [of sep "hd (cs @ [c])" "tl (cs @ [c])"] by auto
  then have "trimStart (join sep (map bullet (cs @ [c])) @ ws)
      = join sep (map bullet (cs @ [c])) @ ws"
    using dash_not_space by (simp add: trimStart_def)
  then have "trim (join sep (map bullet (cs @ [c])) @ ws)
      = trimEnd (A @ CHR ''-'' # (c @ ws))"
    using A by (simp add: trim_def bullet_def)
  also have "\<dots> = A @ CHR ''-'' # trimEnd (c @ ws)"
    using dash_not_space by (rule trimEnd_keep)
  also have "\<dots> = A @ bullet (trimEnd c)"
    using ws by (simp add: trimEnd_spaces bullet_def)
  finally show ?thesis using A' by simp
qed

lemma facts_of_bullets:
  assumes ne: "cs \<noteq> []"
    and nl: "\<forall>c \<in> set cs. CHR ''\<newline>'' \<notin> set c"
    and ws: "\<forall>c \<in> set ws. is_space c"
  shows "map (\<lambda>f. trim (strip_dash f))
           (split_nl (trim (join ''\<newline>'' (map bullet cs) @ ws))) = map trim cs"
proof -
  obtain cs' c where cs: "cs = cs' @ [c]"
    using ne by (metis append_butlast_last_id)
  let ?ls = "map bullet (cs' @ [trimEnd c])"
  have t: "trim (join ''\<newline>'' (map bullet cs) @ ws) = join ''\<newline>'' ?ls"
    unfolding cs using ws by (rule trim_bullets)
  have "\<forall>l \<in> set ?ls. CHR ''\<newline>'' \<notin> set l"
    using nl cs set_trimEnd [of c] by (auto simp: bullet_def)
  moreover have "?ls \<noteq> []" by simp
  ultimately have "split_nl (join ''\<newline>'' ?ls) = ?ls"
    by (intro split_nl_join) auto
  then have "map (\<lambda>f. trim (strip_dash f))
           (split_nl (trim (join ''\<newline>'' (map bullet cs) @ ws)))
      = map (\<lambda>f. trim (strip_dash f)) ?ls"
    using t by simp
  also have "\<dots> = map trim (cs' @ [trimEnd c])"
    by (simp add: trim_strip_dash_bullet comp_def del: map_append)
  also have "\<dots> = map trim cs"
    unfolding cs by (simp add: trim_trimEnd)
  finally show ?thesis .
qed

lemma parse_facts_of_bullets:
  assumes fm: "factsMatch txt = Some (join ''\<newline>'' (map bullet cs) @ ws)"
    and ne: "cs \<noteq> []"
    and nl: "\<forall>c \<in> set cs. CHR ''\<newline>'' \<notin> set c"
    and ws: "\<forall>c \<in> set ws. is_space c"
    and tr: "\<forall>c \<in> set cs. trim c \<noteq> []"
  shows "parse_facts txt = take 5 (map trim cs)"
proof -
  have "filter (\<lambda>f. length f > 0) (map trim cs) = map trim cs"
    using tr by (simp add: filter_id_conv)
  then show ?thesis
    unfolding parse_facts_def Let_def fm
    using facts_of_bullets [OF ne nl ws] by simp
qed

lemma parse_facts_bounds: "length (parse_facts txt) \<le> 5 \<and> [] \<notin> set (parse_facts txt)"
proof -
  have "length (parse_facts txt) \<le> 5" by (simp add: parse_facts_def Let_def)
  moreover have "[] \<notin> set (parse_facts txt)"
    by (auto simp: parse_facts_def Let_def dest!: in_set_takeD)
  ultimately show ?thesis by blast
qed

lemma PROMPT_length: "length ''IMAGE_PROMPT:'' - 1 = 12"
  by simp

lemma parse_facts_section:
  assumes hdr: "map to_upper hdr = ''FACTS:''"
    and first: "\<not> ci_occurs ''FACTS:'' (pre @ butlast hdr)"
    and sp: "\<forall>c \<in> set sp. is_space c"
    and ws: "\<forall>c \<in> set ws. is_space c"
    and ne: "cs \<noteq> []"
    and nl: "\<forall>c \<in> set cs. CHR ''\<newline>'' \<notin> set c"
    and tr: "\<forall>c \<in> set cs. trim c \<noteq> []"
    and t: "tail = [] \<or> ci_prefix ''IMAGE_PROMPT:'' tail"
    and none: "\<not> ci_occurs ''IMAGE_PROMPT:'' (join ''\<newline>'' (map bullet cs) @ ws @ take 12 tail)"
  shows "parse_facts (pre @ hdr @ sp @ join ''\<newline>'' (map bullet cs) @ ws @ tail)
           = take 5 (map trim cs)"
proof -
  obtain c0 cs0 where "cs = c0 # cs0" using ne by (cases cs) auto
  then obtain r where J: "join ''\<newline>'' (map bullet cs) = CHR ''-'' # r"
    using join_bullets_Cons [of "''\<newline>''" c0 cs0] by auto
  have h: "map to_upper hdr = map to_upper ''FACTS:''"
    unfolding to_upper_FACTS by (rule hdr)
  have a1: "(CHR ''-'' # (r @ ws)) @ take 12 tail = (CHR ''-'' # r) @ ws @ take 12 tail"
    by simp
  have n: "\<not> ci_occurs ''IMAGE_PROMPT:''
      ((CHR ''-'' # (r @ ws)) @ take (length ''IMAGE_PROMPT:'' - 1) tail)"
    unfolding PROMPT_length a1 using none unfolding J .
  have m: "map_option (\<lambda>rest. lazy_until ''IMAGE_PROMPT:'' (dropWhile is_space rest))
           (search_ci ''FACTS:'' (pre @ hdr @ sp @ (CHR ''-'' # (r @ ws)) @ tail))
         = Some (CHR ''-'' # (r @ ws))"
    using h first sp dash_not_space t n by (rule section_after_header)
  have a2: "pre @ hdr @ sp @ join ''\<newline>'' (map bullet cs) @ ws @ tail
      = pre @ hdr @ sp @ (CHR ''-'' # (r @ ws)) @ tail"
    unfolding J by simp
  have a3: "join ''\<newline>'' (map bullet cs) @ ws = CHR ''-'' # (r @ ws)"
    unfolding J by simp
  have "factsMatch (pre @ hdr @ sp @ join ''\<newline>'' (map bullet cs) @ ws @ tail)
      = Some (join ''\<newline>'' (map bullet cs) @ ws)"
    unfolding factsMatch_def a2 a3 by (rule m)
  then show ?thesis using ne nl ws tr by (rule parse_facts_of_bullets)
qed

lemma researchTopicForPrompt_Inr:
  "researchTopicForPrompt tpc lvl sty (Inr resp) =
     Inr \<lparr> imagePrompt = parse_imagePrompt (js_or_str (response_text resp) []) tpc
                            (getLevelInstruction lvl) (getStyleInstruction sty),
           facts = parse_facts (js_or_str (response_text resp) []),
           searchResults = uniqueResults
             (case groundingChunks resp of None \<Rightarrow> [] | Some chunks \<Rightarrow> collect_searchResults chunks) \<rparr>"
  by (simp add: researchTopicForPrompt_def Let_def)

lemma parse_imagePrompt_fallback:
  assumes "\<not> ci_occurs ''IMAGE_PROMPT:'' txt"
  shows "parse_imagePrompt txt tpc li si
           = ''Create a detailed infographic about '' @ tpc @ ''. '' @ li @ '' '' @ si"
proof -
  have "search_ci ''IMAGE_PROMPT:'' txt = None"
    unfolding search_ci_None by (rule assms)
  then have "promptMatch txt = None"
    by (simp only: promptMatch_def option.map)
  then show ?thesis
    by (simp only: parse_imagePrompt_def option.case)
qed

text \<open>
  What the parser does with bullet lines that begin with their dash. The facts parsed from
  any response text are at most five and none of them is empty, and
  \<^verbatim>\<open>researchTopicForPrompt\<close> returns exactly these. Take a response text in which the first
  \<^verbatim>\<open>FACTS:\<close> header (in any case) is followed by white space and seven lines, separated by
  line feeds, each a dash followed by a text that is not white space only; after them comes
  white space, and there the text ends or the \<^verbatim>\<open>IMAGE_PROMPT:\<close> header (in any case) begins,
  and not before. Then the parser yields exactly five facts: the texts of the first five
  lines, in their order, each without its dash and trimmed.
\<close>

theorem parse_facts_line_start_bullets:
  "length (parse_facts txt) \<le> 5 \<and> [] \<notin> set (parse_facts txt)
   \<and> map_sum (\<lambda>e. e) facts (researchTopicForPrompt tpc lvl sty (Inr resp))
       = Inr (parse_facts (js_or_str (response_text resp) []))
   \<and> (map to_upper hdr = ''FACTS:''
        \<and> \<not> ci_occurs ''FACTS:'' (pre @ butlast hdr)
        \<and> (\<forall>c \<in> set sp. is_space c)
        \<and> (\<forall>c \<in> set ws. is_space c)
        \<and> length cs = 7
        \<and> (\<forall>c \<in> set cs. CHR ''\<newline>'' \<notin> set c \<and> trim c \<noteq> [])
        \<and> (tail = [] \<or> ci_prefix ''IMAGE_PROMPT:'' tail)
        \<and> \<not> ci_occurs ''IMAGE_PROMPT:'' (join ''\<newline>'' (map bullet cs) @ ws @ take 12 tail)
      \<longrightarrow>
        parse_facts (pre @ hdr @ sp @ join ''\<newline>'' (map bullet cs) @ ws @ tail)
          = map trim (take 5 cs)
        \<and> length (parse_facts (pre @ hdr @ sp @ join ''\<newline>'' (map bullet cs) @ ws @ tail)) = 5)"
proof (intro conjI impI)
  show "length (parse_facts txt) \<le> 5"
    using parse_facts_bounds [of "txt"] by (rule conjunct1)
  show "[] \<notin> set (parse_facts txt)"
    using parse_facts_bounds [of "txt"] by (rule conjunct2)
  show "map_sum (\<lambda>e. e) facts (researchTopicForPrompt tpc lvl sty (Inr resp))
       = Inr (parse_facts (js_or_str (response_text resp) []))"
    unfolding researchTopicForPrompt_Inr by simp
next
  assume hyps: "map to_upper hdr = ''FACTS:''
        \<and> \<not> ci_occurs ''FACTS:'' (pre @ butlast hdr)
        \<and> (\<forall>c \<in> set sp. is_space c)
        \<and> (\<forall>c \<in> set ws. is_space c)
        \<and> length cs = 7
        \<and> (\<forall>c \<in> set cs. CHR ''\<newline>'' \<notin> set c \<and> trim c \<noteq> [])
        \<and> (tail = [] \<or> ci_prefix ''IMAGE_PROMPT:'' tail)
        \<and> \<not> ci_occurs ''IMAGE_PROMPT:'' (join ''\<newline>'' (map bullet cs) @ ws @ take 12 tail)"
  have hdr: "map to_upper hdr = ''FACTS:''"
    using hyps by (rule conjunct1)
  note r1 = hyps [THEN conjunct2]
  have first: "\<not> ci_occurs ''FACTS:'' (pre @ butlast hdr)"
    using r1 by (rule conjunct1)
  note r2 = r1 [THEN conjunct2]
  have sp: "\<forall>c \<in> set sp. is_space c"
    using r2 by (rule conjunct1)
  note r3 = r2 [THEN conjunct2]
  have ws: "\<forall>c \<in> set ws. is_space c"
    using r3 by (rule conjunct1)
  note r4 = r3 [THEN conjunct2]
  have len: "length cs = 7"
    using r4 by (rule conjunct1)
  note r5 = r4 [THEN conjunct2]
  have both: "\<forall>c \<in> set cs. CHR ''\<newline>'' \<notin> set c \<and> trim c \<noteq> []"
    using r5 by (rule conjunct1)
  note r6 = r5 [THEN conjunct2]
  have t: "tail = [] \<or> ci_prefix ''IMAGE_PROMPT:'' tail"
    using r6 by (rule conjunct1)
  have none: "\<not> ci_occurs ''IMAGE_PROMPT:'' (join ''\<newline>'' (map bullet cs) @ ws @ take 12 tail)"
    using r6 by (rule conjunct2)
  have ne: "cs \<noteq> []" using len by auto
  have nl: "\<forall>c \<in> set cs. CHR ''\<newline>'' \<notin> set c"
    using both by simp
  have tr: "\<forall>c \<in> set cs. trim c \<noteq> []"
    using both by simp
  have p: "parse_facts (pre @ hdr @ sp @ join ''\<newline>'' (map bullet cs) @ ws @ tail)
      = take 5 (map trim cs)"
    using hdr first sp ws ne nl tr t none by (rule parse_facts_section)
  show "parse_facts (pre @ hdr @ sp @ join ''\<newline>'' (map bullet cs) @ ws @ tail)
          = map trim (take 5 cs)"
    unfolding p by (simp add: take_map)
  show "length (parse_facts (pre @ hdr @ sp @ join ''\<newline>'' (map bullet cs) @ ws @ tail)) = 5"
    unfolding p using len by simp
qed

text \<open>
  Claim C7. When the response text has no \<^verbatim>\<open>IMAGE_PROMPT:\<close> header (in any case; a response
  without text counts as the empty text), \<^verbatim>\<open>researchTopicForPrompt\<close> returns as image prompt
  the sentence built from the topic, the level instruction and the style instruction, and
  the topic occurs in it as it was given.
\<close>

theorem fallback_prompt:
  "\<not> ci_occurs ''IMAGE_PROMPT:'' (js_or_str (response_text resp) []) \<longrightarrow>
     map_sum (\<lambda>e. e) imagePrompt (researchTopicForPrompt tpc lvl sty (Inr resp))
       = Inr (''Create a detailed infographic about '' @ tpc @ ''. ''
               @ getLevelInstruction lvl @ '' '' @ getStyleInstruction sty)
     \<and> sublist tpc (''Create a detailed infographic about '' @ tpc @ ''. ''
               @ getLevelInstruction lvl @ '' '' @ getStyleInstruction sty)
     \<and> includes_str (''Create a detailed infographic about '' @ tpc @ ''. ''
               @ getLevelInstruction lvl @ '' '' @ getStyleInstruction sty) tpc"
proof (intro impI conjI)
  assume h: "\<not> ci_occurs ''IMAGE_PROMPT:'' (js_or_str (response_text resp) [])"
  have f: "parse_imagePrompt (js_or_str (response_text resp) []) tpc
      (getLevelInstruction lvl) (getStyleInstruction sty)
      = ''Create a detailed infographic about '' @ tpc @ ''. ''
               @ getLevelInstruction lvl @ '' '' @ getStyleInstruction sty"
    using h by (rule parse_imagePrompt_fallback)
  show "map_sum (\<lambda>e. e) imagePrompt (researchTopicForPrompt tpc lvl sty (Inr resp))
       = Inr (''Create a detailed infographic about '' @ tpc @ ''. ''
               @ getLevelInstruction lvl @ '' '' @ getStyleInstruction sty)"
    unfolding researchTopicForPrompt_Inr map_sum.simps ResearchResult.select_convs f by (rule refl)
  show s: "sublist tpc (''Create a detailed infographic about '' @ tpc @ ''. ''
               @ getLevelInstruction lvl @ '' '' @ getStyleInstruction sty)"
    by (rule sublist_appendI)
  show "includes_str (''Create a detailed infographic about '' @ tpc @ ''. ''
               @ getLevelInstruction lvl @ '' '' @ getStyleInstruction sty) tpc"
    unfolding includes_str_sublist by (rule s)
qed

text \<open>Seven such lines between a \<^verbatim>\<open>Facts:\<close> and an \<^verbatim>\<open>Image_Prompt:\<close> header.\<close>

theorem parse_facts_line_start_bullets_example:
  "parse_facts ''OkFacts:\<newline>- a\<newline>- b\<newline>- c\<newline>- d\<newline>- e\<newline>- f\<newline>- g\<newline>Image_Prompt: x''
     = [''a'', ''b'', ''c'', ''d'', ''e'']
   \<and> length (parse_facts ''OkFacts:\<newline>- a\<newline>- b\<newline>- c\<newline>- d\<newline>- e\<newline>- f\<newline>- g\<newline>Image_Prompt: x'') = 5"
proof -
  let ?cs = "['' a'', '' b'', '' c'', '' d'', '' e'', '' f'', '' g'']"
  have H1: "map to_upper ''Facts:'' = ''FACTS:''"
    by code_simp
  have "search_ci ''FACTS:'' (''Ok'' @ butlast ''Facts:'') = None"
    by code_simp
  then have H2: "\<not> ci_occurs ''FACTS:'' (''Ok'' @ butlast ''Facts:'')"
    unfolding search_ci_None .
  have H3: "\<forall>c \<in> set ''\<newline>''. is_space c"
    by (simp add: is_space_def)
  have H5: "length ?cs = 7"
    by simp
  have H6: "\<forall>c \<in> set ?cs. CHR ''\<newline>'' \<notin> set c \<and> trim c \<noteq> []"
    by code_simp
  have H7: "''Image_Prompt: x'' = [] \<or> ci_prefix ''IMAGE_PROMPT:'' ''Image_Prompt: x''"
    by code_simp
  have "search_ci ''IMAGE_PROMPT:''
      (join ''\<newline>'' (map bullet ?cs) @ ''\<newline>'' @ take 12 ''Image_Prompt: x'') = None"
    by code_simp
  then have H8: "\<not> ci_occurs ''IMAGE_PROMPT:''
      (join ''\<newline>'' (map bullet ?cs) @ ''\<newline>'' @ take 12 ''Image_Prompt: x'')"
    unfolding search_ci_None .
  have E1: "''Ok'' @ ''Facts:'' @ ''\<newline>'' @ join ''\<newline>'' (map bullet ?cs) @ ''\<newline>''
        @ ''Image_Prompt: x''
      = ''OkFacts:\<newline>- a\<newline>- b\<newline>- c\<newline>- d\<newline>- e\<newline>- f\<newline>- g\<newline>Image_Prompt: x''"
    by (simp add: bullet_def)
  have E2: "map trim (take 5 ?cs) = [''a'', ''b'', ''c'', ''d'', ''e'']"
    by code_simp
  note T = parse_facts_line_start_bullets [of "[]" "''Tides''" "''Expert''" "''Default''"
      "\<lparr> response_text = None, groundingChunks = None \<rparr>"
      "''Facts:''" "''Ok''" "''\<newline>''" "''\<newline>''" ?cs "''Image_Prompt: x''"]
  note D = T [THEN conjunct2, THEN conjunct2, THEN conjunct2]
  have R: "parse_facts (''Ok'' @ ''Facts:'' @ ''\<newline>'' @ join ''\<newline>'' (map bullet ?cs)
            @ ''\<newline>'' @ ''Image_Prompt: x'') = map trim (take 5 ?cs)
        \<and> length (parse_facts (''Ok'' @ ''Facts:'' @ ''\<newline>''
            @ join ''\<newline>'' (map bullet ?cs) @ ''\<newline>'' @ ''Image_Prompt: x'')) = 5"
    by (rule mp [OF D]) (intro conjI H1 H2 H3 H5 H6 H7 H8)
  show ?thesis using R unfolding E1 E2 .
qed

text \<open>A response with a facts section only.\<close>

theorem fallback_prompt_witness:
  "map_sum (\<lambda>e. e) imagePrompt
     (researchTopicForPrompt ''Tides'' ''Expert'' ''Default''
        (Inr \<lparr> response_text = Some ''FACTS:\<newline>- a'', groundingChunks = None \<rparr>))
   = Inr (''Create a detailed infographic about Tides. '' @ getLevelInstruction ''Expert''
           @ '' '' @ getStyleInstruction ''Default'')"
proof -
  have "search_ci ''IMAGE_PROMPT:'' ''FACTS:\<newline>- a'' = None"
    by code_simp
  then have "\<not> ci_occurs ''IMAGE_PROMPT:'' ''FACTS:\<newline>- a''"
    unfolding search_ci_None .
  then have H: "\<not> ci_occurs ''IMAGE_PROMPT:''
      (js_or_str (response_text \<lparr> response_text = Some ''FACTS:\<newline>- a'', groundingChunks = None \<rparr>) [])"
    by (simp add: js_or_str_def)
  note T = fallback_prompt [of "\<lparr> response_text = Some ''FACTS:\<newline>- a'', groundingChunks = None \<rparr>"
      "''Tides''" "''Expert''" "''Default''"]
  have "map_sum (\<lambda>e. e) imagePrompt
     (researchTopicForPrompt ''Tides'' ''Expert'' ''Default''
        (Inr \<lparr> response_text = Some ''FACTS:\<newline>- a'', groundingChunks = None \<rparr>))
   = Inr (''Create a detailed infographic about '' @ ''Tides'' @ ''. ''
           @ getLevelInstruction ''Expert'' @ '' '' @ getStyleInstruction ''Default'')"
    using mp [OF T H] by (rule conjunct1)
  then show ?thesis by simp
qed

text \<open>
  Claim C6 says that the parser yields the first five bullet lines of the section, each
  trimmed and with its leading dash stripped. The code strips the dash with
  \<^verbatim>\<open>replace(/^-\s*/, '')\<close> before it trims the line: a dash that comes after indentation
  is not at the start of the line and stays. On a response that lays out its seven bullets
  indented, as the format block of the request itself does, only the first fact loses its
  dash (the section is trimmed as a whole before it is split into lines); the others are
  returned with it.
\<close>

theorem parse_facts_indented_bullets:
  "map_sum (\<lambda>e. e) facts
     (researchTopicForPrompt ''Tides'' ''Expert'' ''Default''
        (Inr \<lparr> response_text = Some ''FACTS:\<newline>    - a\<newline>    - b\<newline>    - c\<newline>    - d\<newline>    - e\<newline>    - f\<newline>    - g\<newline>\<newline>    IMAGE_PROMPT:\<newline>    x'',
               groundingChunks = None \<rparr>))
   = Inr [''a'', ''- b'', ''- c'', ''- d'', ''- e'']"
proof -
  have p: "parse_facts ''FACTS:\<newline>    - a\<newline>    - b\<newline>    - c\<newline>    - d\<newline>    - e\<newline>    - f\<newline>    - g\<newline>\<newline>    IMAGE_PROMPT:\<newline>    x''
      = [''a'', ''- b'', ''- c'', ''- d'', ''- e'']"
    by code_simp
  show ?thesis
    unfolding researchTopicForPrompt_def Let_def
    by (simp add: js_or_str_def p)
qed

end
